theory Spec2Isabelle
  imports Complex_Main "HOL-Library.Multiset" "HOL-Library.Log_Nat"
begin

section \<open>The regression tree of xgboost/BaseTree.py\<close>

text \<open>
  The class \<^verbatim>\<open>BaseTree\<close> grows a binary regression tree from a pandas frame whose
  last two columns are the gradients \<^verbatim>\<open>g\<close> and \<^verbatim>\<open>h\<close>, and predicts with it.

  Numbers. A cell of a frame, a label and a parameter of the constructor is a finite
  number, held as the rational it denotes. What the source computes from them, it
  computes with numpy, pandas and the conversions of Python, whose results depend on the
  type of the columns: float64 rounds, int64 wraps around, a comparison of an int64 with
  a Python float converts first. These operations are not code of the class; the model
  takes them as a parameter, the record \<open>numlib\<close>, and every definition that computes
  calls them where the source does, on the same operands and in the same order. The
  results range over \<open>fnum\<close>, a finite number, an infinity or nan; the sign of a zero
  is not kept. Comparisons that the source makes within one column, or between two
  computed gains, are exact and are the order of the numbers themselves.

  Frames. The labels of a frame are taken to be distinct: \<^verbatim>\<open>X[c]\<close> on a label that
  occurs twice is a frame, not a column, and is outside this model. The properties of
  the split search, of training and of prediction state this as a hypothesis.

  Errors. Every exception the source can raise on these data is a value of \<open>error\<close>;
  \<open>ConfigurationError\<close> is the condition named by the specification, which no
  line of the source raises.
\<close>

subsection \<open>Data\<close>

datatype error = KeyError | IndexError | ValueError | AttributeError | ConfigurationError

datatype fnum = Fin rat | PInf | NInf | NaN

text \<open>
  The trained tree is a float (a leaf) or the nested dictionary
  \<^verbatim>\<open>{feature: {str(value) + "(l)": left, str(value) + "(r)": right}}\<close>. The two keys
  differ, insertion order puts the left subtree first, and both are printed from the one
  split value, which a node of the model carries in their place. Prediction does not
  see that value: it reads \<^verbatim>\<open>float(key.split('(')[0])\<close>, the float that Python parses
  from the printed value, which is \<open>py_float_str\<close> of the library below.
\<close>

datatype tree = Leaf fnum | Node string rat tree tree

text \<open>A frame: the column names in order, and the rows, each with one cell per column.\<close>

record frame =
  columns :: "string list"
  rows :: "rat list list"

text \<open>A row taken out of a frame (\<^verbatim>\<open>X.iloc[i]\<close>): its cells under the column names.\<close>

type_synonym series = "(string \<times> rat) list"

text \<open>
  The attributes of the object: those given to the constructor, which no method assigns
  again, and those assigned by \<^verbatim>\<open>train\<close>, which do not exist before.
\<close>

record config =
  max_depth :: int
  min_samples_split :: int
  split_threshold :: rat
  gamma :: rat
  Lambda :: rat

record state =
  self_feature_names :: "string list option"
  self_G :: "fnum option"
  self_H :: "fnum option"
  self_tree :: "tree option"

type_synonym cand = "string \<times> rat \<times> fnum"

subsection \<open>The numeric library\<close>

text \<open>
  The operations of numpy, pandas and Python that the source applies to numbers, one
  field for each kind of operands that an expression of the source meets, since what
  \<^verbatim>\<open>+\<close> or \<^verbatim>\<open>/\<close> does depends on the types of its operands: a sum of a gradient column
  has the type of the column, a quotient is a float. A parameter of the constructor
  enters as the number it is. Nothing is assumed of the operations here; the
  properties that need a fact about them state it.
  \<^item> \<open>col_total\<close>: \<^verbatim>\<open>Series.sum()\<close> of a gradient column, or of some of its rows;
  \<^item> \<open>sum_add\<close>, \<open>sum_sub\<close>, \<open>sum_neg\<close>, \<open>sum_pow2\<close>: \<^verbatim>\<open>G_l += s\<close>, \<^verbatim>\<open>self.G - G_l\<close>,
    \<^verbatim>\<open>-self.G\<close> and \<^verbatim>\<open>pow(G_l, 2)\<close> on such sums;
  \<^item> \<open>sum_add_param\<close>, \<open>param_eq_sum\<close>: \<^verbatim>\<open>H_l + self.Lambda\<close> and \<^verbatim>\<open>-self.Lambda == H_l\<close>,
    a sum with a parameter;
  \<^item> \<open>quot\<close>: \<^verbatim>\<open>/\<close>, a square or a sum over a sum with \<open>\<lambda>\<close> added;
  \<^item> \<open>gain_add\<close>, \<open>gain_sub\<close>: \<^verbatim>\<open>+\<close> and \<^verbatim>\<open>-\<close> of two quotients;
  \<^item> \<open>gain_lt_param\<close>: \<^verbatim>\<open>gain < self.split_threshold\<close>;
  \<^item> \<open>param_mul\<close>, \<open>gain_sub_param\<close>: \<^verbatim>\<open>(1 / 2) * gain\<close> and \<^verbatim>\<open>... - self.gamma\<close>;
  \<^item> \<open>py_float_str\<close>: \<^verbatim>\<open>float(str(v))\<close>, the float read back from the key printed for the
    split value \<open>v\<close>;
  \<^item> \<open>np_cell_gt\<close>: \<^verbatim>\<open>x[f] > t\<close>, a cell of a row taken out of the frame and such a float.
\<close>

record numlib =
  col_total :: "rat list \<Rightarrow> fnum"
  sum_add :: "fnum \<Rightarrow> fnum \<Rightarrow> fnum"
  sum_sub :: "fnum \<Rightarrow> fnum \<Rightarrow> fnum"
  sum_neg :: "fnum \<Rightarrow> fnum"
  sum_pow2 :: "fnum \<Rightarrow> fnum"
  sum_add_param :: "fnum \<Rightarrow> rat \<Rightarrow> fnum"
  param_eq_sum :: "rat \<Rightarrow> fnum \<Rightarrow> bool"
  quot :: "fnum \<Rightarrow> fnum \<Rightarrow> fnum"
  gain_add :: "fnum \<Rightarrow> fnum \<Rightarrow> fnum"
  gain_sub :: "fnum \<Rightarrow> fnum \<Rightarrow> fnum"
  gain_lt_param :: "fnum \<Rightarrow> rat \<Rightarrow> bool"
  param_mul :: "rat \<Rightarrow> fnum \<Rightarrow> fnum"
  gain_sub_param :: "fnum \<Rightarrow> rat \<Rightarrow> fnum"
  py_float_str :: "rat \<Rightarrow> fnum"
  np_cell_gt :: "rat \<Rightarrow> fnum \<Rightarrow> bool"

text \<open>The order of two floats: nan is below nothing and nothing is below nan.\<close>

fun fless :: "fnum \<Rightarrow> fnum \<Rightarrow> bool" where
  "fless (Fin a) (Fin b) = (a < b)"
| "fless (Fin a) PInf = True"
| "fless NInf (Fin b) = True"
| "fless NInf PInf = True"
| "fless x y = False"

subsection \<open>Frames\<close>

fun index_of :: "'a \<Rightarrow> 'a list \<Rightarrow> nat option" where
  "index_of a [] = None"
| "index_of a (x # xs) = (if x = a then Some 0 else map_option Suc (index_of a xs))"

text \<open>\<^verbatim>\<open>X[c]\<close>: the column named \<open>c\<close>, or KeyError.\<close>

definition column :: "frame \<Rightarrow> string \<Rightarrow> error + rat list" where
  "column X c = (case index_of c (columns X) of
                   None \<Rightarrow> Inl KeyError
                 | Some i \<Rightarrow> Inr (map (\<lambda>r. r ! i) (rows X)))"

text \<open>\<^verbatim>\<open>X[mask]\<close> and \<^verbatim>\<open>y[mask]\<close>: the entries at which the boolean mask holds, in order.\<close>

definition mask_list :: "'a list \<Rightarrow> bool list \<Rightarrow> 'a list" where
  "mask_list xs bs = map fst (filter snd (zip xs bs))"

definition mask_rows :: "frame \<Rightarrow> bool list \<Rightarrow> frame" where
  "mask_rows X bs = X\<lparr>rows := mask_list (rows X) bs\<rparr>"

text \<open>\<^verbatim>\<open>X[X[f] == v][c].sum()\<close>\<close>

definition sum_where :: "numlib \<Rightarrow> frame \<Rightarrow> string \<Rightarrow> rat \<Rightarrow> string \<Rightarrow> error + fnum" where
  "sum_where L X f v c =
     (case column X f of Inl e \<Rightarrow> Inl e | Inr col \<Rightarrow>
       (case column (mask_rows X (map (\<lambda>u. u = v) col)) c of Inl e \<Rightarrow> Inl e | Inr xs \<Rightarrow>
          Inr (col_total L xs)))"

subsection \<open>Exact division with the infinities and nan of numpy\<close>

definition fdiv :: "rat \<Rightarrow> rat \<Rightarrow> fnum" where
  "fdiv a b = (if b \<noteq> 0 then Fin (a / b)
               else if 0 < a then PInf else if a < 0 then NInf else NaN)"

subsection \<open>select_best_split\<close>

text \<open>
  The inner loop over the candidate values of one feature, with the running sums
  \<open>G_l\<close>, \<open>H_l\<close>, which start from the integer 0, and the list \<open>gain_ls\<close> built so far.
\<close>

fun scan_values :: "numlib \<Rightarrow> config \<Rightarrow> state \<Rightarrow> frame \<Rightarrow> string \<Rightarrow> rat list
    \<Rightarrow> fnum \<Rightarrow> fnum \<Rightarrow> cand list \<Rightarrow> error + cand list" where
  "scan_values L cfg st X f [] G_l H_l gain_ls = Inr gain_ls"
| "scan_values L cfg st X f (v # vs) G_l H_l gain_ls =
     (case sum_where L X f v ''g'' of Inl e \<Rightarrow> Inl e | Inr dg \<Rightarrow>
     (case sum_where L X f v ''h'' of Inl e \<Rightarrow> Inl e | Inr dh \<Rightarrow>
     (case self_G st of None \<Rightarrow> Inl AttributeError | Some G \<Rightarrow>
     (case self_H st of None \<Rightarrow> Inl AttributeError | Some H \<Rightarrow>
        (let G_l' = sum_add L G_l dg; H_l' = sum_add L H_l dh;
             G_r = sum_sub L G G_l'; H_r = sum_sub L H H_l' in
         if \<not> (param_eq_sum L (- Lambda cfg) H_l' \<or> param_eq_sum L (- Lambda cfg) H_r
                \<or> param_eq_sum L (- Lambda cfg) H)
         then (let gain =
                 gain_sub L
                   (gain_add L (quot L (sum_pow2 L G_l') (sum_add_param L H_l' (Lambda cfg)))
                               (quot L (sum_pow2 L G_r) (sum_add_param L H_r (Lambda cfg))))
                   (quot L (sum_pow2 L G) (sum_add_param L H (Lambda cfg)))
               in scan_values L cfg st X f vs G_l' H_l' (gain_ls @ [(f, v, gain)]))
         else scan_values L cfg st X f vs G_l' H_l' gain_ls)))))"

text \<open>
  The outer loop over the feature names; the values of a feature are
  \<^verbatim>\<open>X[f].drop_duplicates().sort_values(ascending=True)\<close>.
\<close>

fun scan_features :: "numlib \<Rightarrow> config \<Rightarrow> state \<Rightarrow> frame \<Rightarrow> string list \<Rightarrow> cand list
    \<Rightarrow> error + cand list" where
  "scan_features L cfg st X [] gain_ls = Inr gain_ls"
| "scan_features L cfg st X (f # fs) gain_ls =
     (case column X f of Inl e \<Rightarrow> Inl e | Inr col \<Rightarrow>
     (case scan_values L cfg st X f (sort (remdups col)) (Fin 0) (Fin 0) gain_ls of
        Inl e \<Rightarrow> Inl e
      | Inr gain_ls' \<Rightarrow> scan_features L cfg st X fs gain_ls'))"

text \<open>The list \<open>gain_ls\<close> as it stands when the two loops are done.\<close>

definition candidates :: "numlib \<Rightarrow> config \<Rightarrow> state \<Rightarrow> frame \<Rightarrow> error + cand list" where
  "candidates L cfg st X =
     (case self_feature_names st of None \<Rightarrow> Inl AttributeError
      | Some fs \<Rightarrow> scan_features L cfg st X fs [])"

text \<open>
  The second loop: \<open>best_index\<close> starts at 0 and moves to \<open>i\<close> when the gain at \<open>i\<close> is
  greater than the gain at \<open>best_index\<close>, two floats of one type.
\<close>

definition best_index :: "cand list \<Rightarrow> nat" where
  "best_index gain_ls =
     fold (\<lambda>i best. if fless (snd (snd (gain_ls ! best))) (snd (snd (gain_ls ! i))) then i else best)
          [0 ..< length gain_ls] 0"

definition select_best_split :: "numlib \<Rightarrow> config \<Rightarrow> state \<Rightarrow> frame \<Rightarrow> error + cand" where
  "select_best_split L cfg st X =
     (case candidates L cfg st X of Inl e \<Rightarrow> Inl e | Inr gain_ls \<Rightarrow>
        (let b = best_index gain_ls in
         if b < length gain_ls then Inr (gain_ls ! b) else Inl IndexError))"

subsection \<open>split_dataset\<close>

text \<open>
  The label vector is a numpy array: indexing it with a mask of another length raises
  IndexError.
\<close>

definition split_dataset :: "frame \<Rightarrow> rat list \<Rightarrow> string \<Rightarrow> rat
    \<Rightarrow> error + ((frame \<times> rat list) \<times> (frame \<times> rat list))" where
  "split_dataset X y split_feature split_value =
     (case column X split_feature of Inl e \<Rightarrow> Inl e | Inr col \<Rightarrow>
        (let group_index = map (\<lambda>u. u > split_value) col in
         if length y \<noteq> length group_index then Inl IndexError
         else Inr ((mask_rows X (map Not group_index), mask_list y (map Not group_index)),
                   (mask_rows X group_index, mask_list y group_index))))"

subsection \<open>train\<close>

text \<open>
  \<open>train\<close> returns the tree and the attributes as it leaves them. The logging calls have
  no effect on either; \<open>loss_reduction\<close> is computed for the log only.
\<close>

function (domintros) train :: "numlib \<Rightarrow> config \<Rightarrow> state \<Rightarrow> frame \<Rightarrow> rat list \<Rightarrow> int
    \<Rightarrow> error + (tree \<times> state)" where
  "train L cfg st X y depth =
     (let st1 = (if depth = 1
                 then st\<lparr>self_feature_names := Some (take (length (columns X) - 2) (columns X))\<rparr>
                 else st) in
      (case column X ''g'' of Inl e \<Rightarrow> Inl e | Inr gs \<Rightarrow>
      (case column X ''h'' of Inl e \<Rightarrow> Inl e | Inr hs \<Rightarrow>
        (let G = col_total L gs; H = col_total L hs;
             st2 = st1\<lparr>self_G := Some G, self_H := Some H\<rparr>;
             leaf = Leaf (quot L (sum_neg L G) (sum_add_param L H (Lambda cfg))) in
         if depth > max_depth cfg then Inr (leaf, st2\<lparr>self_tree := Some leaf\<rparr>)
         else if int (length (rows X)) < min_samples_split cfg
           then Inr (leaf, st2\<lparr>self_tree := Some leaf\<rparr>)
         else (case select_best_split L cfg st2 X of Inl e \<Rightarrow> Inl e
           | Inr (best_feature, best_value, gain) \<Rightarrow>
             if gain_lt_param L gain (split_threshold cfg)
             then Inr (leaf, st2\<lparr>self_tree := Some leaf\<rparr>)
             else (let loss_reduction =
                         gain_sub_param L (param_mul L (1 / 2) gain) (gamma cfg) in
               (case split_dataset X y best_feature best_value of Inl e \<Rightarrow> Inl e
                | Inr ((Xl, yl), (Xr, yr)) \<Rightarrow>
                 (case train L cfg st2 Xl yl (depth + 1) of Inl e \<Rightarrow> Inl e
                  | Inr (ltree, st3) \<Rightarrow>
                 (case train L cfg st3 Xr yr (depth + 1) of Inl e \<Rightarrow> Inl e
                  | Inr (rtree, st4) \<Rightarrow>
                   (let tree = Node best_feature best_value ltree rtree in
                    Inr (tree, st4\<lparr>self_tree := Some tree\<rparr>)))))))))))"
  by pat_completeness auto
termination
  by (relation "measure (\<lambda>(L, cfg, st, X, y, depth). nat (max_depth cfg + 1 - depth))") auto

declare train.simps [simp del]

subsection \<open>single_predict, predict, score\<close>

text \<open>
  The recursion of \<^verbatim>\<open>single_predict\<close> on a given tree, and its entry, where a missing
  tree argument stands for \<^verbatim>\<open>self.tree\<close>. None of the three methods assigns an attribute,
  so they return a value only.
\<close>

fun single_predict_tree :: "numlib \<Rightarrow> series \<Rightarrow> tree \<Rightarrow> error + fnum" where
  "single_predict_tree L x (Leaf v) = Inr v"
| "single_predict_tree L x (Node feature_name value left right) =
     (let split_value = py_float_str L value in
      case map_of x feature_name of None \<Rightarrow> Inl KeyError
      | Some u \<Rightarrow> if np_cell_gt L u split_value then single_predict_tree L x right
                  else single_predict_tree L x left)"

definition single_predict :: "numlib \<Rightarrow> state \<Rightarrow> series \<Rightarrow> tree option \<Rightarrow> error + fnum" where
  "single_predict L st x tree =
     (case (case tree of None \<Rightarrow> self_tree st | Some t \<Rightarrow> Some t) of
        None \<Rightarrow> Inl AttributeError
      | Some t \<Rightarrow> single_predict_tree L x t)"

definition iloc :: "frame \<Rightarrow> nat \<Rightarrow> series" where
  "iloc X i = zip (columns X) (rows X ! i)"

fun predict_loop :: "numlib \<Rightarrow> state \<Rightarrow> frame \<Rightarrow> nat list \<Rightarrow> fnum list \<Rightarrow> error + fnum list" where
  "predict_loop L st X [] res = Inr res"
| "predict_loop L st X (i # is) res =
     (case single_predict L st (iloc X i) None of Inl e \<Rightarrow> Inl e
      | Inr v \<Rightarrow> predict_loop L st X is (res @ [v]))"

definition predict :: "numlib \<Rightarrow> state \<Rightarrow> frame \<Rightarrow> error + fnum list" where
  "predict L st X = predict_loop L st X [0 ..< length (rows X)] []"

text \<open>Arithmetic of numpy on the predictions: subtraction of a label, square, sum, mean.\<close>

fun fsub :: "fnum \<Rightarrow> rat \<Rightarrow> fnum" where
  "fsub (Fin a) b = Fin (a - b)"
| "fsub v b = v"

fun fsq :: "fnum \<Rightarrow> fnum" where
  "fsq (Fin a) = Fin (a\<^sup>2)"
| "fsq NaN = NaN"
| "fsq v = PInf"

fun fadd :: "fnum \<Rightarrow> fnum \<Rightarrow> fnum" where
  "fadd (Fin a) (Fin b) = Fin (a + b)"
| "fadd NaN v = NaN"
| "fadd v NaN = NaN"
| "fadd PInf NInf = NaN"
| "fadd NInf PInf = NaN"
| "fadd PInf v = PInf"
| "fadd v PInf = PInf"
| "fadd NInf v = NInf"
| "fadd v NInf = NInf"

definition fmean :: "fnum list \<Rightarrow> fnum" where
  "fmean xs = (case foldl fadd (Fin 0) xs of
                 Fin s \<Rightarrow> fdiv s (of_nat (length xs))
               | v \<Rightarrow> v)"

text \<open>
  \<^verbatim>\<open>y_pred - y\<close> on two one-dimensional arrays: elementwise on equal lengths, an array of
  length one is broadcast, any other pair of lengths raises ValueError.
\<close>

definition array_sub :: "fnum list \<Rightarrow> rat list \<Rightarrow> error + fnum list" where
  "array_sub ps ys =
     (if length ps = length ys then Inr (map (\<lambda>(p, t). fsub p t) (zip ps ys))
      else if length ps = 1 then Inr (map (\<lambda>t. fsub (hd ps) t) ys)
      else if length ys = 1 then Inr (map (\<lambda>p. fsub p (hd ys)) ps)
      else Inl ValueError)"

definition score :: "numlib \<Rightarrow> state \<Rightarrow> frame \<Rightarrow> rat list \<Rightarrow> error + fnum" where
  "score L st X y =
     (case predict L st X of Inl e \<Rightarrow> Inl e | Inr y_pred \<Rightarrow>
     (case array_sub y_pred y of Inl e \<Rightarrow> Inl e | Inr d \<Rightarrow>
        Inr (fmean (map fsq d))))"

subsection \<open>Two libraries\<close>

text \<open>
  The arithmetic of floats over a rounding \<open>rd\<close> of the exact result, with the rules of
  IEEE 754 for the infinities and nan. A division by zero gives an infinity with the
  sign of the dividend, or nan for a zero dividend.
\<close>

fun signed_inf :: "rat \<Rightarrow> fnum" where
  "signed_inf s = (if 0 < s then PInf else if s < 0 then NInf else NaN)"

fun fl_neg :: "fnum \<Rightarrow> fnum" where
  "fl_neg (Fin a) = Fin (- a)"
| "fl_neg PInf = NInf"
| "fl_neg NInf = PInf"
| "fl_neg NaN = NaN"

fun fl_add :: "(rat \<Rightarrow> fnum) \<Rightarrow> fnum \<Rightarrow> fnum \<Rightarrow> fnum" where
  "fl_add rd (Fin a) (Fin b) = rd (a + b)"
| "fl_add rd NaN y = NaN"
| "fl_add rd x NaN = NaN"
| "fl_add rd PInf NInf = NaN"
| "fl_add rd NInf PInf = NaN"
| "fl_add rd PInf y = PInf"
| "fl_add rd x PInf = PInf"
| "fl_add rd NInf y = NInf"
| "fl_add rd x NInf = NInf"

definition fl_sub :: "(rat \<Rightarrow> fnum) \<Rightarrow> fnum \<Rightarrow> fnum \<Rightarrow> fnum" where
  "fl_sub rd x y = fl_add rd x (fl_neg y)"

fun fl_mul :: "(rat \<Rightarrow> fnum) \<Rightarrow> fnum \<Rightarrow> fnum \<Rightarrow> fnum" where
  "fl_mul rd (Fin a) (Fin b) = rd (a * b)"
| "fl_mul rd NaN y = NaN"
| "fl_mul rd x NaN = NaN"
| "fl_mul rd (Fin a) PInf = signed_inf a"
| "fl_mul rd (Fin a) NInf = signed_inf (- a)"
| "fl_mul rd PInf (Fin b) = signed_inf b"
| "fl_mul rd NInf (Fin b) = signed_inf (- b)"
| "fl_mul rd PInf PInf = PInf"
| "fl_mul rd NInf NInf = PInf"
| "fl_mul rd PInf NInf = NInf"
| "fl_mul rd NInf PInf = NInf"

fun fl_div :: "(rat \<Rightarrow> fnum) \<Rightarrow> fnum \<Rightarrow> fnum \<Rightarrow> fnum" where
  "fl_div rd (Fin a) (Fin b) = (if b \<noteq> 0 then rd (a / b) else signed_inf a)"
| "fl_div rd NaN y = NaN"
| "fl_div rd x NaN = NaN"
| "fl_div rd (Fin a) PInf = Fin 0"
| "fl_div rd (Fin a) NInf = Fin 0"
| "fl_div rd PInf (Fin b) = (if 0 \<le> b then PInf else NInf)"
| "fl_div rd NInf (Fin b) = (if 0 \<le> b then NInf else PInf)"
| "fl_div rd x y = NaN"

fun feq :: "fnum \<Rightarrow> fnum \<Rightarrow> bool" where
  "feq (Fin a) (Fin b) = (a = b)"
| "feq PInf PInf = True"
| "feq NInf NInf = True"
| "feq x y = False"

text \<open>
  The library of a frame whose columns are floats of one type with the rounding \<open>rd\<close>:
  a sum adds from left to right, every operation rounds its exact result, a parameter
  and a cell are converted to the type before they are used, and a printed key is read
  back as the float nearest to it.
\<close>

definition float_lib :: "(rat \<Rightarrow> fnum) \<Rightarrow> numlib" where
  "float_lib rd =
     \<lparr>col_total = (\<lambda>xs. foldl (fl_add rd) (Fin 0) (map rd xs)),
      sum_add = fl_add rd, sum_sub = fl_sub rd, sum_neg = fl_neg,
      sum_pow2 = (\<lambda>x. fl_mul rd x x),
      sum_add_param = (\<lambda>a p. fl_add rd a (rd p)),
      param_eq_sum = (\<lambda>p a. feq (rd p) a),
      quot = fl_div rd, gain_add = fl_add rd, gain_sub = fl_sub rd,
      gain_lt_param = (\<lambda>g p. fless g (rd p)),
      param_mul = (\<lambda>p g. fl_mul rd (rd p) g),
      gain_sub_param = (\<lambda>g p. fl_sub rd g (rd p)),
      py_float_str = rd, np_cell_gt = (\<lambda>u t. fless t (rd u))\<rparr>"

text \<open>
  The library of exact arithmetic, where nothing is rounded. It is the one on which the
  example inputs are evaluated; on them float64 takes the same decisions.
\<close>

definition exact_lib :: numlib where
  "exact_lib = float_lib Fin"

text \<open>
  Rounding to float64: to the nearest number with 53 significant bits and an exponent of
  at least \<open>-1022\<close>, a tie going to the even significand, and to an infinity from
  \<open>2 ^ 1024\<close> on.
\<close>

definition pow2i :: "int \<Rightarrow> rat" where
  "pow2i e = (if 0 \<le> e then 2 ^ nat e else 1 / 2 ^ nat (- e))"

text \<open>For \<open>0 < q\<close>, the exponent \<open>e\<close> with \<open>2 ^ e \<le> q < 2 ^ (e + 1)\<close>.\<close>

definition ilog2_below :: "rat \<Rightarrow> int \<Rightarrow> int" where
  "ilog2_below q k = (if q = pow2i (- k) then - k else - k - 1)"

definition ilog2 :: "rat \<Rightarrow> int" where
  "ilog2 q = (if 1 \<le> q then bitlen \<lfloor>q\<rfloor> - 1 else ilog2_below q (bitlen \<lfloor>1 / q\<rfloor> - 1))"

text \<open>
  Rounding to the nearest integer, halves to the even one; \<open>f\<close> is the integer part.
\<close>

definition nearest_even :: "rat \<Rightarrow> int \<Rightarrow> int" where
  "nearest_even m f =
     (if m - of_int f < 1 / 2 then f else if 1 / 2 < m - of_int f then f + 1
      else if even f then f else f + 1)"

definition round_half_even :: "rat \<Rightarrow> int" where
  "round_half_even m = nearest_even m \<lfloor>m\<rfloor>"

text \<open>
  The float with significand \<open>m\<close>, of at most 53 bits or \<open>2 ^ 53\<close> itself, at the
  exponent \<open>p\<close> of its last bit, and the sign of \<open>q\<close>; it is an infinity from \<open>2 ^ 1024\<close> on.
\<close>

definition pack64 :: "rat \<Rightarrow> int \<Rightarrow> int \<Rightarrow> fnum" where
  "pack64 q p m =
     (if 971 < p \<or> (p = 971 \<and> 9007199254740992 \<le> m) then signed_inf q
      else Fin (if 0 < q then of_int m * pow2i p else - (of_int m * pow2i p)))"

definition round64_at :: "rat \<Rightarrow> int \<Rightarrow> fnum" where
  "round64_at q p = pack64 q p (round_half_even (\<bar>q\<bar> / pow2i p))"

definition round64 :: "rat \<Rightarrow> fnum" where
  "round64 q = (if q = 0 then Fin 0 else round64_at q (max (ilog2 \<bar>q\<bar>) (- 1022) - 52))"

text \<open>
  The library of float64. A cell that is a float64 is not changed by the conversion; a
  cell of an int64 column beyond \<open>2 ^ 53\<close> is.
\<close>

definition float64_lib :: numlib where
  "float64_lib = float_lib round64"

text \<open>
  The library of a frame whose columns are all int64, with integers for parameters. A
  sum, a difference, an opposite and a square are taken modulo \<open>2 ^ 64\<close>; a division
  converts both operands to float64 and gives a float64, as do the operations on
  quotients.
\<close>

definition wrap64 :: "int \<Rightarrow> int" where
  "wrap64 n = (n + 9223372036854775808) mod 18446744073709551616 - 9223372036854775808"

definition to_int64 :: "rat \<Rightarrow> fnum" where
  "to_int64 q = Fin (of_int (wrap64 \<lfloor>q\<rfloor>))"

fun to_float64 :: "fnum \<Rightarrow> fnum" where
  "to_float64 (Fin a) = round64 a"
| "to_float64 x = x"

definition int64_lib :: numlib where
  "int64_lib =
     \<lparr>col_total = (\<lambda>xs. foldl (fl_add to_int64) (Fin 0) (map to_int64 xs)),
      sum_add = fl_add to_int64, sum_sub = fl_sub to_int64,
      sum_neg = (\<lambda>x. fl_mul to_int64 (Fin (- 1)) x),
      sum_pow2 = (\<lambda>x. fl_mul to_int64 x x),
      sum_add_param = (\<lambda>a p. fl_add to_int64 a (to_int64 p)),
      param_eq_sum = (\<lambda>p a. feq (Fin p) a),
      quot = (\<lambda>a b. fl_div round64 (to_float64 a) (to_float64 b)),
      gain_add = fl_add round64, gain_sub = fl_sub round64,
      gain_lt_param = (\<lambda>g p. fless g (round64 p)),
      param_mul = (\<lambda>p g. fl_mul round64 (round64 p) g),
      gain_sub_param = (\<lambda>g p. fl_sub round64 g (round64 p)),
      py_float_str = round64, np_cell_gt = (\<lambda>u t. fless t (round64 u))\<rparr>"

subsection \<open>Notions of the specification\<close>

text \<open>
  The definitions of this part follow the words of the specification, not the source;
  the properties below compare the two. Where the specification computes, they compute
  with the operations of the library, as the program does. First the cell of a row
  under a column name, the sum of a column, and the sum of a column over the rows that
  hold exactly the value \<open>v\<close> for the feature \<open>f\<close>.
\<close>

definition fld :: "frame \<Rightarrow> string \<Rightarrow> rat list \<Rightarrow> rat" where
  "fld X c r = (case index_of c (columns X) of Some i \<Rightarrow> r ! i | None \<Rightarrow> 0)"

definition col_sum :: "numlib \<Rightarrow> frame \<Rightarrow> string \<Rightarrow> fnum" where
  "col_sum L X c = col_total L (map (fld X c) (rows X))"

definition eq_sum :: "numlib \<Rightarrow> frame \<Rightarrow> string \<Rightarrow> string \<Rightarrow> rat \<Rightarrow> fnum" where
  "eq_sum L X f c v = col_total L (map (fld X c) (filter (\<lambda>r. fld X f r = v) (rows X)))"

text \<open>
  The distinct values of a feature in ascending order, and the left sum at a value: the
  running sum, started at 0 and taken over the distinct values up to and including it
  in ascending order, of the sums over the rows that hold exactly that value.
\<close>

definition distinct_values :: "frame \<Rightarrow> string \<Rightarrow> rat list" where
  "distinct_values X f = sorted_list_of_set (set (map (fld X f) (rows X)))"

definition left_acc :: "numlib \<Rightarrow> frame \<Rightarrow> string \<Rightarrow> string \<Rightarrow> rat \<Rightarrow> fnum" where
  "left_acc L X f c v =
     foldl (sum_add L) (Fin 0)
       (map (eq_sum L X f c) (filter (\<lambda>u. u \<le> v) (distinct_values X f)))"

text \<open>
  The gain \<open>G_l\<^sup>2/(H_l+\<lambda>) + G_r\<^sup>2/(H_r+\<lambda>) - G\<^sup>2/(H+\<lambda>)\<close> of a split, with \<open>G_r = G - G_l\<close> and
  \<open>H_r = H - H_l\<close>, and the condition under which a split is not recorded: one of
  \<open>H_l\<close>, \<open>H_r\<close>, \<open>H\<close> equals \<open>-\<lambda>\<close>.
\<close>

definition gain_formula :: "numlib \<Rightarrow> fnum \<Rightarrow> fnum \<Rightarrow> fnum \<Rightarrow> fnum \<Rightarrow> rat \<Rightarrow> fnum" where
  "gain_formula L G H G_l H_l lam =
     (let G_r = sum_sub L G G_l; H_r = sum_sub L H H_l
      in gain_sub L
           (gain_add L (quot L (sum_pow2 L G_l) (sum_add_param L H_l lam))
                       (quot L (sum_pow2 L G_r) (sum_add_param L H_r lam)))
           (quot L (sum_pow2 L G) (sum_add_param L H lam)))"

definition degenerate :: "numlib \<Rightarrow> rat \<Rightarrow> fnum \<Rightarrow> fnum \<Rightarrow> bool" where
  "degenerate L lam H H_l =
     (param_eq_sum L (- lam) H_l \<or> param_eq_sum L (- lam) (sum_sub L H H_l)
      \<or> param_eq_sum L (- lam) H)"

text \<open>
  All pairs of a feature and one of its distinct values, features in the given order
  and values ascending; and the triples recorded for those that are not left out.
\<close>

definition all_splits :: "frame \<Rightarrow> string list \<Rightarrow> (string \<times> rat) list" where
  "all_splits X fs = concat (map (\<lambda>f. map (Pair f) (distinct_values X f)) fs)"

definition recorded :: "numlib \<Rightarrow> rat \<Rightarrow> fnum \<Rightarrow> fnum \<Rightarrow> frame \<Rightarrow> string list \<Rightarrow> cand list" where
  "recorded L lam G H X fs =
     map (\<lambda>(f, v). (f, v, gain_formula L G H (left_acc L X f ''g'' v) (left_acc L X f ''h'' v) lam))
       (filter (\<lambda>(f, v). \<not> degenerate L lam H (left_acc L X f ''h'' v)) (all_splits X fs))"

text \<open>
  The library adds \<open>\<lambda>\<close> to a number to zero only when \<open>==\<close> finds \<open>-\<lambda>\<close> equal to that
  number, as it is with two floats of one type.
\<close>

definition zero_sum_opposite :: "numlib \<Rightarrow> rat \<Rightarrow> fnum \<Rightarrow> bool" where
  "zero_sum_opposite L lam a = (sum_add_param L a lam \<noteq> Fin 0 \<or> param_eq_sum L (- lam) a)"

text \<open>The positions of the rows that a split sends to the left and to the right.\<close>

definition left_index :: "frame \<Rightarrow> string \<Rightarrow> rat \<Rightarrow> nat set" where
  "left_index X f t = {i. i < length (rows X) \<and> fld X f (rows X ! i) \<le> t}"

definition right_index :: "frame \<Rightarrow> string \<Rightarrow> rat \<Rightarrow> nat set" where
  "right_index X f t = {i. i < length (rows X) \<and> fld X f (rows X ! i) > t}"



text \<open>The mean over all rows of the squared difference of prediction and label.\<close>

definition mean_squared_error :: "rat list \<Rightarrow> rat list \<Rightarrow> rat" where
  "mean_squared_error ps ys = (\<Sum>i < length ps. (ps ! i - ys ! i)\<^sup>2) / of_nat (length ps)"

text \<open>The number of inner nodes on the longest way from the root of a tree to a leaf.\<close>

fun height :: "tree \<Rightarrow> nat" where
  "height (Leaf v) = 0"
| "height (Node f t l r) = Suc (max (height l) (height r))"

text \<open>
  Every leaf of a tree holds \<open>-G/(H+\<lambda>)\<close> for the sums \<open>G\<close>, \<open>H\<close> of the gradient columns
  over the rows of the frame that the thresholds above the leaf send to it.
\<close>

fun leaves_fit :: "numlib \<Rightarrow> rat \<Rightarrow> frame \<Rightarrow> tree \<Rightarrow> bool" where
  "leaves_fit L lam X (Leaf v) =
     (v = quot L (sum_neg L (col_sum L X ''g'')) (sum_add_param L (col_sum L X ''h'') lam))"
| "leaves_fit L lam X (Node f t l r) =
     (leaves_fit L lam (X\<lparr>rows := filter (\<lambda>r. fld X f r \<le> t) (rows X)\<rparr>) l \<and>
      leaves_fit L lam (X\<lparr>rows := filter (\<lambda>r. fld X f r > t) (rows X)\<rparr>) r)"

subsection \<open>Example inputs\<close>

text \<open>
  The examples are evaluated with the library of exact arithmetic. A frame with one
  feature and four rows, the parameters used with it, the attributes
  of a fresh object, and the attributes as they stand when the root call searches its
  split (the sums of the two gradient columns are 2 and 4).
\<close>

definition X0 :: frame where
  "X0 = \<lparr>columns = [''f'', ''g'', ''h''],
         rows = [[1, -2, 1], [2, -2, 1], [3, 4, 1], [3, 2, 1]]\<rparr>"

definition cfg0 :: config where
  "cfg0 = \<lparr>max_depth = 2, min_samples_split = 2, split_threshold = 0, gamma = 0, Lambda = 1\<rparr>"

definition st_new :: state where
  "st_new = \<lparr>self_feature_names = None, self_G = None, self_H = None, self_tree = None\<rparr>"

definition st_root :: state where
  "st_root = \<lparr>self_feature_names = Some [''f''], self_G = Some (Fin 2), self_H = Some (Fin 4),
              self_tree = None\<rparr>"

text \<open>A frame that has the two gradient columns and no feature.\<close>

definition X_bare :: frame where
  "X_bare = \<lparr>columns = [''g'', ''h''], rows = [[1, 1], [2, 1]]\<rparr>"

definition st_bare :: state where
  "st_bare = \<lparr>self_feature_names = Some [], self_G = Some (Fin 3), self_H = Some (Fin 2),
              self_tree = None\<rparr>"

text \<open>The first frame with its feature column twice, so that every gain occurs twice.\<close>

definition X_tie :: frame where
  "X_tie = \<lparr>columns = [''f'', ''f2'', ''g'', ''h''],
            rows = [[1, 1, -2, 1], [2, 2, -2, 1], [3, 3, 4, 1], [3, 3, 2, 1]]\<rparr>"

definition st_tie :: state where
  "st_tie = \<lparr>self_feature_names = Some [''f'', ''f2''], self_G = Some (Fin 2), self_H = Some (Fin 4),
             self_tree = None\<rparr>"

text \<open>The tree that the root call grows from the first frame, and the object holding it.\<close>

definition T0 :: tree where
  "T0 = Node ''f'' 2 (Node ''f'' 2 (Leaf (Fin (4 / 3))) (Leaf (Fin 0)))
                    (Node ''f'' 3 (Leaf (Fin (- 2))) (Leaf (Fin 0)))"

definition st_trained :: state where
  "st_trained = \<lparr>self_feature_names = Some [''f''], self_G = Some (Fin 0), self_H = Some (Fin 0),
                 self_tree = Some T0\<rparr>"

text \<open>
  A frame whose feature column is int64, with two cells at \<open>2 ^ 53\<close> and one above, and
  the tree that the root call grows from it with the library of float64.
\<close>

definition X_big :: frame where
  "X_big = \<lparr>columns = [''f'', ''g'', ''h''],
            rows = [[9007199254740992, - 4, 1], [9007199254740993, 4, 1]]\<rparr>"

definition T_big :: tree where
  "T_big = Node ''f'' 9007199254740992 (Leaf (Fin 2)) (Leaf (Fin (- 2)))"

definition st_big :: state where
  "st_big = \<lparr>self_feature_names = Some [''f''], self_G = Some (Fin 4), self_H = Some (Fin 1),
             self_tree = Some T_big\<rparr>"

text \<open>
  Three frames on which rounding decides. On the first the best gain is 6 in exact
  arithmetic and just below 6 in float64; on the second two gains are equal in exact
  arithmetic and differ in float64; on the third the sum of the second gradient column
  rounds to 1.
\<close>

definition X_r1 :: frame where
  "X_r1 = \<lparr>columns = [''f'', ''g'', ''h''], rows = [[1, - 1, 3], [2, - 6, 2], [3, - 1, 1]]\<rparr>"

definition cfg_r1 :: config where
  "cfg_r1 = \<lparr>max_depth = 1, min_samples_split = 2, split_threshold = 6, gamma = 0, Lambda = 0\<rparr>"

definition X_r2 :: frame where
  "X_r2 = \<lparr>columns = [''f'', ''g'', ''h''], rows = [[1, - 6, 3], [2, - 4, 4], [3, 0, 3]]\<rparr>"

definition X_r3 :: frame where
  "X_r3 = \<lparr>columns = [''f'', ''g'', ''h''],
           rows = [[1, 3, 1], [2, - 1, 1 / 1152921504606846976]]\<rparr>"

definition cfg_r :: config where
  "cfg_r = \<lparr>max_depth = 1, min_samples_split = 2, split_threshold = 0, gamma = 0, Lambda = 0\<rparr>"

text \<open>A frame of int64 columns on which a square leaves the range of int64.\<close>

definition X_w :: frame where
  "X_w = \<lparr>columns = [''f'', ''g'', ''h''], rows = [[1, 4000000000, 1], [2, 0, 1]]\<rparr>"

section \<open>Properties\<close>

subsection \<open>Frames and the split search\<close>

lemma index_of_mem: "c \<in> set cs \<Longrightarrow> \<exists>i. index_of c cs = Some i"
  by (induction cs) auto

lemma index_of_None: "c \<notin> set cs \<Longrightarrow> index_of c cs = None"
  by (induction cs) auto

lemma column_fld: "c \<in> set (columns X) \<Longrightarrow> column X c = Inr (map (fld X c) (rows X))"
  using index_of_mem [of c "columns X"] by (auto simp: column_def fld_def)

lemma mask_list_filter: "mask_list xs (map P xs) = filter P xs"
  by (induction xs) (auto simp: mask_list_def)

lemma mask_list_filter_map: "mask_list xs (map P (map k xs)) = filter (\<lambda>x. P (k x)) xs"
  by (induction xs) (auto simp: mask_list_def)

lemma columns_mask_rows: "columns (mask_rows X bs) = columns X"
  by (simp add: mask_rows_def)

lemma rows_mask_rows: "rows (mask_rows X bs) = mask_list (rows X) bs"
  by (simp add: mask_rows_def)

lemma fld_mask_rows: "fld (mask_rows X bs) c = fld X c"
  by (simp add: fld_def columns_mask_rows fun_eq_iff)

lemma sum_where_eq_sum:
  assumes "f \<in> set (columns X)" "c \<in> set (columns X)"
  shows "sum_where L X f v c = Inr (eq_sum L X f c v)"
proof -
  define bs where "bs = map (\<lambda>u. u = v) (map (fld X f) (rows X))"
  have rws: "mask_list (rows X) bs = filter (\<lambda>r. fld X f r = v) (rows X)"
    unfolding bs_def by (simp add: mask_list_filter comp_def)
  have "column (mask_rows X bs) c = Inr (map (fld X c) (filter (\<lambda>r. fld X f r = v) (rows X)))"
    using column_fld [of c "mask_rows X bs"] assms(2)
    by (simp add: columns_mask_rows rows_mask_rows fld_mask_rows rws)
  then show ?thesis
    using assms(1) unfolding sum_where_def bs_def by (simp add: column_fld eq_sum_def)
qed

text \<open>The inner loop, started after the values \<open>pre\<close> of an ascending run of distinct values.\<close>

lemma filter_le_sorted_prefix:
  assumes "sorted (pre @ v # vs)" "distinct (pre @ v # vs)"
  shows "filter (\<lambda>u. u \<le> v) (pre @ v # vs) = pre @ [v]"
proof -
  have a: "\<forall>u \<in> set pre. u \<le> v" using assms(1) by (auto simp: sorted_append)
  have b: "\<forall>u \<in> set vs. \<not> u \<le> v" using assms by (auto simp: sorted_append)
  show ?thesis using a b by simp
qed

lemma scan_values_eq:
  assumes "f \<in> set (columns X)" "''g'' \<in> set (columns X)" "''h'' \<in> set (columns X)"
    and "self_G st = Some G" "self_H st = Some H"
    and "sorted (pre @ vs)" "distinct (pre @ vs)"
    and "G_l = foldl (sum_add L) (Fin 0) (map (eq_sum L X f ''g'') pre)"
    and "H_l = foldl (sum_add L) (Fin 0) (map (eq_sum L X f ''h'') pre)"
  shows "scan_values L cfg st X f vs G_l H_l gain_ls =
     Inr (gain_ls @
       map (\<lambda>v. (f, v, gain_formula L G H
                (foldl (sum_add L) (Fin 0)
                   (map (eq_sum L X f ''g'') (filter (\<lambda>u. u \<le> v) (pre @ vs))))
                (foldl (sum_add L) (Fin 0)
                   (map (eq_sum L X f ''h'') (filter (\<lambda>u. u \<le> v) (pre @ vs))))
                (Lambda cfg)))
         (filter (\<lambda>v. \<not> degenerate L (Lambda cfg) H
              (foldl (sum_add L) (Fin 0)
                 (map (eq_sum L X f ''h'') (filter (\<lambda>u. u \<le> v) (pre @ vs))))) vs))"
  using assms(6-)
proof (induction vs arbitrary: pre G_l H_l gain_ls)
  case Nil
  then show ?case by simp
next
  case (Cons v vs)
  let ?GL = "\<lambda>w. foldl (sum_add L) (Fin 0)
      (map (eq_sum L X f ''g'') (filter (\<lambda>u. u \<le> w) (pre @ v # vs)))"
  let ?HL = "\<lambda>w. foldl (sum_add L) (Fin 0)
      (map (eq_sum L X f ''h'') (filter (\<lambda>u. u \<le> w) (pre @ v # vs)))"
  let ?mk = "\<lambda>w. (f, w, gain_formula L G H (?GL w) (?HL w) (Lambda cfg))"
  let ?ok = "\<lambda>w. \<not> degenerate L (Lambda cfg) H (?HL w)"
  have pf: "filter (\<lambda>u. u \<le> v) (pre @ v # vs) = pre @ [v]"
    using Cons.prems(1,2) by (rule filter_le_sorted_prefix)
  have g: "sum_add L G_l (eq_sum L X f ''g'' v) = ?GL v"
    using Cons.prems(3) by (simp only: pf) simp
  have h: "sum_add L H_l (eq_sum L X f ''h'' v) = ?HL v"
    using Cons.prems(4) by (simp only: pf) simp
  have s: "sorted ((pre @ [v]) @ vs)" "distinct ((pre @ [v]) @ vs)"
    using Cons.prems(1,2) by simp_all
  have app: "(pre @ [v]) @ vs = pre @ v # vs" by simp
  have g': "?GL v = foldl (sum_add L) (Fin 0) (map (eq_sum L X f ''g'') (pre @ [v]))"
    by (simp only: pf)
  have h': "?HL v = foldl (sum_add L) (Fin 0) (map (eq_sum L X f ''h'') (pre @ [v]))"
    by (simp only: pf)
  have IH: "scan_values L cfg st X f vs (?GL v) (?HL v) acc = Inr (acc @ map ?mk (filter ?ok vs))"
    for acc
    using Cons.IH [OF s g' h', of acc] unfolding app .
  have step: "scan_values L cfg st X f (v # vs) G_l H_l gain_ls =
      (if ?ok v then scan_values L cfg st X f vs (?GL v) (?HL v) (gain_ls @ [?mk v])
       else scan_values L cfg st X f vs (?GL v) (?HL v) gain_ls)"
    using assms(1-5) unfolding g [symmetric] h [symmetric]
    by (simp add: sum_where_eq_sum Let_def degenerate_def gain_formula_def)
  show ?case
    unfolding step by (simp only: IH) simp
qed

lemma recorded_Nil: "recorded L lam G H X [] = []"
  by (simp add: recorded_def all_splits_def)

lemma recorded_Cons:
  "recorded L lam G H X (f # fs) =
     map (\<lambda>v. (f, v, gain_formula L G H (left_acc L X f ''g'' v) (left_acc L X f ''h'' v) lam))
       (filter (\<lambda>v. \<not> degenerate L lam H (left_acc L X f ''h'' v)) (distinct_values X f))
     @ recorded L lam G H X fs"
  by (simp add: recorded_def all_splits_def filter_map comp_def)

lemma sorted_distinct_values: "sorted (distinct_values X f)" "distinct (distinct_values X f)"
  by (simp_all add: distinct_values_def)

lemma scan_features_eq:
  assumes "set fs \<subseteq> set (columns X)" "''g'' \<in> set (columns X)" "''h'' \<in> set (columns X)"
    and "self_G st = Some G" "self_H st = Some H"
  shows "scan_features L cfg st X fs gain_ls = Inr (gain_ls @ recorded L (Lambda cfg) G H X fs)"
  using assms(1)
proof (induction fs arbitrary: gain_ls)
  case Nil
  then show ?case by (simp add: recorded_Nil)
next
  case (Cons f fs)
  have f: "f \<in> set (columns X)" and fs: "set fs \<subseteq> set (columns X)"
    using Cons.prems by simp_all
  have col: "column X f = Inr (map (fld X f) (rows X))"
    using f by (rule column_fld)
  have dv: "sort (remdups (map (fld X f) (rows X))) = distinct_values X f"
    unfolding distinct_values_def by (rule sorted_list_of_set_sort_remdups [symmetric])
  have inner: "scan_values L cfg st X f (distinct_values X f) (Fin 0) (Fin 0) gain_ls =
      Inr (gain_ls @
        map (\<lambda>v. (f, v, gain_formula L G H (left_acc L X f ''g'' v) (left_acc L X f ''h'' v)
                          (Lambda cfg)))
          (filter (\<lambda>v. \<not> degenerate L (Lambda cfg) H (left_acc L X f ''h'' v))
             (distinct_values X f)))"
    using scan_values_eq [OF f assms(2-5), of "[]" "distinct_values X f" "Fin 0" L "Fin 0" cfg gain_ls]
    by (simp add: sorted_distinct_values left_acc_def)
  show ?case
    by (simp add: col dv inner Cons.IH [OF fs] recorded_Cons)
qed

lemma candidates_eq:
  assumes "self_feature_names st = Some fs" "set fs \<subseteq> set (columns X)"
    and "''g'' \<in> set (columns X)" "''h'' \<in> set (columns X)"
    and "self_G st = Some G" "self_H st = Some H"
  shows "candidates L cfg st X = Inr (recorded L (Lambda cfg) G H X fs)"
  using scan_features_eq [OF assms(2-6), of L cfg "[]"] assms(1) by (simp add: candidates_def)

text \<open>The order of floats and the second loop.\<close>

lemma fless_irrefl: "\<not> fless a a"
  by (cases a) simp_all

lemma fless_trans: "fless a b \<Longrightarrow> fless b c \<Longrightarrow> fless a c"
  by (cases a; cases b; cases c) simp_all

lemma fless_cases: "a \<noteq> NaN \<Longrightarrow> b \<noteq> NaN \<Longrightarrow> fless a b \<or> a = b \<or> fless b a"
  by (cases a; cases b) auto

lemma fless_not_NaN: "fless a b \<Longrightarrow> a \<noteq> NaN \<and> b \<noteq> NaN"
  by (cases a; cases b) simp_all

lemma best_index_prefix:
  fixes ls :: "cand list"
  defines "gn \<equiv> (\<lambda>i. snd (snd (ls ! i)))"
  defines "step \<equiv> (\<lambda>i best. if fless (gn best) (gn i) then i else best)"
  assumes "0 < n"
  shows "fold step [0 ..< n] 0 < n \<and>
         (\<forall>j < n. \<not> fless (gn (fold step [0 ..< n] 0)) (gn j)) \<and>
         (\<forall>j < fold step [0 ..< n] 0. gn j \<noteq> NaN \<longrightarrow> fless (gn j) (gn (fold step [0 ..< n] 0)))"
  using assms(3)
proof (induction n)
  case 0
  then show ?case by simp
next
  case (Suc n)
  show ?case
  proof (cases "n = 0")
    case True
    then show ?thesis by (simp add: step_def fless_irrefl)
  next
    case False
    define b where "b = fold step [0 ..< n] 0"
    from False have IH: "b < n" "\<forall>j < n. \<not> fless (gn b) (gn j)"
      "\<forall>j < b. gn j \<noteq> NaN \<longrightarrow> fless (gn j) (gn b)"
      using Suc.IH unfolding b_def by simp_all
    have f: "fold step [0 ..< Suc n] 0 = step n b"
      by (simp add: b_def)
    show ?thesis
    proof (cases "fless (gn b) (gn n)")
      case True
      then have sb: "step n b = n" by (simp add: step_def)
      have nb: "gn b \<noteq> NaN" using fless_not_NaN [OF True] by simp
      have up: "\<not> fless (gn n) (gn j)" if "j < Suc n" for j
      proof (cases "j = n")
        case True
        then show ?thesis by (simp add: fless_irrefl)
      next
        case False
        with that have "j < n" by simp
        then have "\<not> fless (gn b) (gn j)" using IH(2) by simp
        then show ?thesis using fless_trans [OF True] by blast
      qed
      have lo: "fless (gn j) (gn n)" if "j < n" "gn j \<noteq> NaN" for j
      proof -
        have "\<not> fless (gn b) (gn j)" using IH(2) that(1) by simp
        then have "fless (gn j) (gn b) \<or> gn j = gn b"
          using fless_cases [OF that(2) nb] by blast
        then show ?thesis using True fless_trans by auto
      qed
      from up lo show ?thesis unfolding f sb by simp
    next
      case False
      then have sb: "step n b = b" by (simp add: step_def)
      have "\<forall>j < Suc n. \<not> fless (gn b) (gn j)"
        using IH(2) False by (auto simp: less_Suc_eq)
      then show ?thesis
        unfolding f sb using IH(1,3) by simp
    qed
  qed
qed

lemma best_index_max:
  assumes "ls \<noteq> []"
  shows "best_index ls < length ls"
    and "\<forall>j < length ls. \<not> fless (snd (snd (ls ! best_index ls))) (snd (snd (ls ! j)))"
    and "\<forall>j < best_index ls. snd (snd (ls ! j)) \<noteq> NaN \<longrightarrow>
           fless (snd (snd (ls ! j))) (snd (snd (ls ! best_index ls)))"
  using best_index_prefix [of "length ls" ls] assms by (simp_all add: best_index_def)

lemma fless_not_feq: "fless a b \<Longrightarrow> \<not> feq a b"
  by (cases a; cases b) simp_all

lemma feq_not_NaN: "feq a b \<Longrightarrow> a \<noteq> NaN"
  by (cases a; cases b) simp_all

lemma best_index_Nil: "best_index [] = 0"
  by (simp add: best_index_def)

subsection \<open>Evaluation on the example inputs\<close>

lemmas ex_defs = X0_def cfg0_def st_new_def st_root_def X_bare_def st_bare_def X_tie_def st_tie_def
  T0_def st_trained_def X_big_def T_big_def st_big_def
lemmas lib_defs = exact_lib_def float_lib_def fl_sub_def
lemmas eval_defs = candidates_def select_best_split_def best_index_def sum_where_def column_def
  mask_rows_def mask_list_def split_dataset_def fdiv_def Let_def
  single_predict_def predict_def iloc_def score_def array_sub_def fmean_def


subsection \<open>The split search\<close>



text \<open>
  Claim C3. The features are scanned in the order of the feature names, the values of a
  feature are its distinct values in ascending order, the left sums at a value are the
  running sums, over the distinct values up to it, of the gradients of the rows that hold
  exactly that value, and of the triples recorded the one returned is the first of
  those with the greatest gain: no gain in the list is greater than its own, no gain
  before it is equal to its own, and every gain before it that is a number is strictly
  smaller.
\<close>

theorem split_search_order:
  assumes "distinct (columns X)"
    and "self_feature_names st = Some fs" "set fs \<subseteq> set (columns X)"
    and "''g'' \<in> set (columns X)" "''h'' \<in> set (columns X)"
    and "self_G st = Some G" "self_H st = Some H"
  shows "candidates L cfg st X = Inr (recorded L (Lambda cfg) G H X fs) \<and>
         (\<forall>f. sorted (distinct_values X f) \<and> distinct (distinct_values X f) \<and>
              set (distinct_values X f) = set (map (fld X f) (rows X))) \<and>
         (recorded L (Lambda cfg) G H X fs \<noteq> [] \<longrightarrow>
         (\<exists>k < length (recorded L (Lambda cfg) G H X fs).
            select_best_split L cfg st X = Inr (recorded L (Lambda cfg) G H X fs ! k) \<and>
            (\<forall>j < length (recorded L (Lambda cfg) G H X fs).
               \<not> fless (snd (snd (recorded L (Lambda cfg) G H X fs ! k)))
                        (snd (snd (recorded L (Lambda cfg) G H X fs ! j)))) \<and>
            (\<forall>j < k. \<not> feq (snd (snd (recorded L (Lambda cfg) G H X fs ! j)))
                           (snd (snd (recorded L (Lambda cfg) G H X fs ! k)))) \<and>
            (\<forall>j < k. snd (snd (recorded L (Lambda cfg) G H X fs ! j)) \<noteq> NaN \<longrightarrow>
               fless (snd (snd (recorded L (Lambda cfg) G H X fs ! j)))
                     (snd (snd (recorded L (Lambda cfg) G H X fs ! k))))))"
proof -
  let ?ls = "recorded L (Lambda cfg) G H X fs"
  have c: "candidates L cfg st X = Inr ?ls" using assms(2-) by (rule candidates_eq)
  have d: "\<forall>f. sorted (distinct_values X f) \<and> distinct (distinct_values X f) \<and>
         set (distinct_values X f) = set (map (fld X f) (rows X))"
    by (simp add: distinct_values_def)
  have s: "?ls \<noteq> [] \<longrightarrow>
         (\<exists>k < length ?ls. select_best_split L cfg st X = Inr (?ls ! k) \<and>
            (\<forall>j < length ?ls. \<not> fless (snd (snd (?ls ! k))) (snd (snd (?ls ! j)))) \<and>
            (\<forall>j < k. \<not> feq (snd (snd (?ls ! j))) (snd (snd (?ls ! k)))) \<and>
            (\<forall>j < k. snd (snd (?ls ! j)) \<noteq> NaN \<longrightarrow>
               fless (snd (snd (?ls ! j))) (snd (snd (?ls ! k)))))"
  proof
    assume ne: "?ls \<noteq> []"
    have "select_best_split L cfg st X = Inr (?ls ! best_index ?ls)"
      using best_index_max(1) [OF ne] by (simp add: select_best_split_def c)
    then show "\<exists>k < length ?ls. select_best_split L cfg st X = Inr (?ls ! k) \<and>
            (\<forall>j < length ?ls. \<not> fless (snd (snd (?ls ! k))) (snd (snd (?ls ! j)))) \<and>
            (\<forall>j < k. \<not> feq (snd (snd (?ls ! j))) (snd (snd (?ls ! k)))) \<and>
            (\<forall>j < k. snd (snd (?ls ! j)) \<noteq> NaN \<longrightarrow>
               fless (snd (snd (?ls ! j))) (snd (snd (?ls ! k))))"
      using best_index_max [OF ne] fless_not_feq feq_not_NaN by blast
  qed
  from c d s show ?thesis by blast
qed

theorem split_search_order_witness:
  "recorded exact_lib (Lambda cfg0) (Fin 2) (Fin 4) X_tie [''f'', ''f2''] =
     [(''f'', 1, Fin (26 / 5)), (''f'', 2, Fin (248 / 15)), (''f'', 3, Fin 0),
      (''f2'', 1, Fin (26 / 5)), (''f2'', 2, Fin (248 / 15)), (''f2'', 3, Fin 0)] \<and>
   distinct_values X_tie ''f'' = [1, 2, 3] \<and>
   select_best_split exact_lib cfg0 st_tie X_tie = Inr (''f'', 2, Fin (248 / 15))"
proof -
  have h0: "distinct (columns X_tie)" by (simp add: X_tie_def)
  have h1: "self_feature_names st_tie = Some [''f'', ''f2'']" by (simp add: st_tie_def)
  have h2: "set [''f'', ''f2''] \<subseteq> set (columns X_tie)" by (simp add: X_tie_def)
  have h3: "''g'' \<in> set (columns X_tie)" by (simp add: X_tie_def)
  have h4: "''h'' \<in> set (columns X_tie)" by (simp add: X_tie_def)
  have h5: "self_G st_tie = Some (Fin 2)" by (simp add: st_tie_def)
  have h6: "self_H st_tie = Some (Fin 4)" by (simp add: st_tie_def)
  have c: "candidates exact_lib cfg0 st_tie X_tie =
     Inr [(''f'', 1, Fin (26 / 5)), (''f'', 2, Fin (248 / 15)), (''f'', 3, Fin 0),
          (''f2'', 1, Fin (26 / 5)), (''f2'', 2, Fin (248 / 15)), (''f2'', 3, Fin 0)]"
    by (simp add: ex_defs eval_defs lib_defs)
  have s: "select_best_split exact_lib cfg0 st_tie X_tie = Inr (''f'', 2, Fin (248 / 15))"
    by (simp add: select_best_split_def c best_index_def)
  have d: "distinct_values X_tie ''f'' = sort (remdups [1, 2, 3, 3])"
    unfolding distinct_values_def sorted_list_of_set_sort_remdups
    by (simp add: fld_def X_tie_def)
  from split_search_order [OF h0 h1 h2 h3 h4 h5 h6, of exact_lib cfg0] c s d show ?thesis
    by simp
qed

text \<open>
  Claim C7. The pairs of a feature and a value that are recorded are exactly the
  enumerated ones for which \<open>==\<close> finds none of \<open>H_l\<close>, \<open>H_r\<close>, \<open>H\<close> equal to \<open>-\<lambda>\<close>, in the
  order of the enumeration. No divisor in the gain of a recorded triple is zero, given
  that the library adds \<open>\<lambda>\<close> to such a sum to zero only when \<open>==\<close> finds the sum equal to
  \<open>-\<lambda>\<close>.
\<close>

theorem degenerate_skipped:
  assumes "distinct (columns X)"
    and "self_feature_names st = Some fs" "set fs \<subseteq> set (columns X)"
    and "''g'' \<in> set (columns X)" "''h'' \<in> set (columns X)"
    and "self_G st = Some G" "self_H st = Some H"
  shows "\<exists>gain_ls. candidates L cfg st X = Inr gain_ls \<and>
           map (\<lambda>(f, v, gain). (f, v)) gain_ls =
             filter (\<lambda>(f, v). \<not> degenerate L (Lambda cfg) H (left_acc L X f ''h'' v))
               (all_splits X fs) \<and>
           (\<forall>(f, v, gain) \<in> set gain_ls.
              (zero_sum_opposite L (Lambda cfg) (left_acc L X f ''h'' v) \<and>
               zero_sum_opposite L (Lambda cfg) (sum_sub L H (left_acc L X f ''h'' v)) \<and>
               zero_sum_opposite L (Lambda cfg) H)
              \<longrightarrow>
              (sum_add_param L (left_acc L X f ''h'' v) (Lambda cfg) \<noteq> Fin 0 \<and>
               sum_add_param L (sum_sub L H (left_acc L X f ''h'' v)) (Lambda cfg) \<noteq> Fin 0 \<and>
               sum_add_param L H (Lambda cfg) \<noteq> Fin 0))"
proof -
  let ?ok = "\<lambda>(f, v). \<not> degenerate L (Lambda cfg) H (left_acc L X f ''h'' v)"
  let ?mk = "\<lambda>(f, v). (f, v, gain_formula L G H (left_acc L X f ''g'' v)
                                  (left_acc L X f ''h'' v) (Lambda cfg))"
  have c: "candidates L cfg st X = Inr (map ?mk (filter ?ok (all_splits X fs)))"
    using candidates_eq [OF assms(2-), of L cfg] by (simp add: recorded_def)
  have p: "map (\<lambda>(f, v, gain). (f, v)) (map ?mk (filter ?ok (all_splits X fs)))
         = filter ?ok (all_splits X fs)"
    by (simp add: comp_def case_prod_beta)
  have nz: "sum_add_param L a lam \<noteq> Fin 0 \<and> sum_add_param L (sum_sub L H a) lam \<noteq> Fin 0 \<and>
            sum_add_param L H lam \<noteq> Fin 0"
    if "\<not> degenerate L lam H a" "zero_sum_opposite L lam a"
       "zero_sum_opposite L lam (sum_sub L H a)" "zero_sum_opposite L lam H" for a lam
    using that by (auto simp: degenerate_def zero_sum_opposite_def)
  have z: "\<forall>(f, v, gain) \<in> set (map ?mk (filter ?ok (all_splits X fs))).
              (zero_sum_opposite L (Lambda cfg) (left_acc L X f ''h'' v) \<and>
               zero_sum_opposite L (Lambda cfg) (sum_sub L H (left_acc L X f ''h'' v)) \<and>
               zero_sum_opposite L (Lambda cfg) H)
              \<longrightarrow>
              (sum_add_param L (left_acc L X f ''h'' v) (Lambda cfg) \<noteq> Fin 0 \<and>
               sum_add_param L (sum_sub L H (left_acc L X f ''h'' v)) (Lambda cfg) \<noteq> Fin 0 \<and>
               sum_add_param L H (Lambda cfg) \<noteq> Fin 0)"
    using nz by (auto simp: case_prod_beta)
  from c p z show ?thesis by blast
qed

theorem degenerate_skipped_witness:
  "candidates exact_lib (cfg0\<lparr>Lambda := 0\<rparr>) st_root X0 =
     Inr [(''f'', 1, Fin (25 / 3)), (''f'', 2, Fin 25)] \<and>
   all_splits X0 [''f''] = [(''f'', 1), (''f'', 2), (''f'', 3)] \<and>
   degenerate exact_lib 0 (Fin 4) (left_acc exact_lib X0 ''f'' ''h'' 3) \<and>
   zero_sum_opposite exact_lib 0 (left_acc exact_lib X0 ''f'' ''h'' 2) \<and>
   zero_sum_opposite exact_lib 0 (sum_sub exact_lib (Fin 4) (left_acc exact_lib X0 ''f'' ''h'' 2)) \<and>
   zero_sum_opposite exact_lib 0 (Fin 4) \<and>
   sum_add_param exact_lib (sum_sub exact_lib (Fin 4) (left_acc exact_lib X0 ''f'' ''h'' 2)) 0
     \<noteq> Fin 0"
proof -
  have h0: "distinct (columns X0)" by (simp add: X0_def)
  have h1: "self_feature_names st_root = Some [''f'']" by (simp add: st_root_def)
  have h2: "set [''f''] \<subseteq> set (columns X0)" by (simp add: X0_def)
  have h3: "''g'' \<in> set (columns X0)" by (simp add: X0_def)
  have h4: "''h'' \<in> set (columns X0)" by (simp add: X0_def)
  have h5: "self_G st_root = Some (Fin 2)" by (simp add: st_root_def)
  have h6: "self_H st_root = Some (Fin 4)" by (simp add: st_root_def)
  have c: "candidates exact_lib (cfg0\<lparr>Lambda := 0\<rparr>) st_root X0 =
     Inr [(''f'', 1, Fin (25 / 3)), (''f'', 2, Fin 25)]"
    by (simp add: ex_defs eval_defs lib_defs)
  have a: "all_splits X0 [''f''] = map (Pair ''f'') (sort (remdups [1, 2, 3, 3]))"
    unfolding all_splits_def distinct_values_def sorted_list_of_set_sort_remdups
    by (simp add: fld_def X0_def)
  have dv: "distinct_values X0 ''f'' = sort (remdups [1, 2, 3, 3])"
    unfolding distinct_values_def sorted_list_of_set_sort_remdups
    by (simp add: fld_def X0_def)
  have l3: "left_acc exact_lib X0 ''f'' ''h'' 3 = Fin 4"
    unfolding left_acc_def dv by (simp add: eq_sum_def fld_def X0_def lib_defs)
  have l2: "left_acc exact_lib X0 ''f'' ''h'' 2 = Fin 2"
    unfolding left_acc_def dv by (simp add: eq_sum_def fld_def X0_def lib_defs)
  have z: "zero_sum_opposite exact_lib 0 b" for b
    by (cases b) (simp_all add: zero_sum_opposite_def lib_defs)
  have L0: "Lambda (cfg0\<lparr>Lambda := 0\<rparr>) = 0" by simp
  from degenerate_skipped [OF h0 h1 h2 h3 h4 h5 h6, of exact_lib "cfg0\<lparr>Lambda := 0\<rparr>"] c a z
  have "sum_add_param exact_lib (sum_sub exact_lib (Fin 4) (left_acc exact_lib X0 ''f'' ''h'' 2)) 0
     \<noteq> Fin 0"
    unfolding L0 by auto
  with c a l3 z show ?thesis
    by (simp add: degenerate_def lib_defs)
qed

text \<open>
  Claim C4, as the specification states it, asks for an explicit ConfigurationError on
  an empty candidate list. On a frame without features the list is empty and the
  source indexes it at 0, which raises IndexError; the root call of \<open>train\<close> on that
  frame fails in the same way.
\<close>

theorem empty_candidates_counterexample:
  "candidates exact_lib cfg0 st_bare X_bare = Inr [] \<and>
   select_best_split exact_lib cfg0 st_bare X_bare = Inl IndexError \<and>
   select_best_split exact_lib cfg0 st_bare X_bare \<noteq> Inl ConfigurationError \<and>
   train exact_lib cfg0 st_new X_bare [5, 6] 1 = Inl IndexError"
  by (simp add: train.simps ex_defs eval_defs lib_defs)

text \<open>
  Claim C4, amended. Whenever the candidate list is empty, \<open>select_best_split\<close> fails with
  the IndexError of indexing the empty list at 0.
\<close>

theorem empty_candidates_index_error:
  assumes "candidates L cfg st X = Inr []"
  shows "select_best_split L cfg st X = Inl IndexError"
  using assms by (simp add: select_best_split_def best_index_def)

theorem empty_candidates_index_error_witness:
  "candidates exact_lib cfg0 st_bare X_bare = Inr [] \<and>
   select_best_split exact_lib cfg0 st_bare X_bare = Inl IndexError"
proof -
  have h: "candidates exact_lib cfg0 st_bare X_bare = Inr []"
    by (simp add: ex_defs eval_defs lib_defs)
  from empty_candidates_index_error [OF h] h show ?thesis by simp
qed

subsection \<open>The partition\<close>

lemma mask_list_nths:
  assumes "length xs = length bs"
  shows "mask_list xs bs = nths xs {i. i < length bs \<and> bs ! i}"
  using assms
proof (induction xs bs rule: list_induct2)
  case Nil
  then show ?case by (simp add: mask_list_def)
next
  case (Cons x xs b bs)
  have s: "{j. Suc j < Suc (length bs) \<and> (b # bs) ! Suc j} = {i. i < length bs \<and> bs ! i}"
    by simp
  have "mask_list (x # xs) (b # bs) = (if b then [x] else []) @ mask_list xs bs"
    by (simp add: mask_list_def)
  also have "\<dots> = (if b then [x] else []) @ nths xs {i. i < length bs \<and> bs ! i}"
    using Cons.IH by simp
  also have "\<dots> = nths (x # xs) {i. i < length (b # bs) \<and> (b # bs) ! i}"
    by (simp add: nths_Cons s)
  finally show ?case .
qed

lemma mask_list_zip:
  assumes "length xs = length ys"
  shows "mask_list ys (map P xs) = map snd (filter (\<lambda>p. P (fst p)) (zip xs ys))"
  using assms by (induction xs ys rule: list_induct2) (simp_all add: mask_list_def)

lemma mset_map_filter_split:
  "mset (map h (filter (\<lambda>p. \<not> Q p) zs)) + mset (map h (filter Q zs)) = mset (map h zs)"
  by (induction zs) simp_all

lemma mset_mask_list_split:
  assumes "length xs = length ys"
  shows "mset (mask_list ys (map (\<lambda>x. \<not> P x) xs)) + mset (mask_list ys (map P xs)) = mset ys"
  using mset_map_filter_split [of snd "\<lambda>p. P (fst p)" "zip xs ys"] assms
  by (simp add: mask_list_zip [OF assms])

text \<open>
  Claim C5. For a feature of the frame and a label vector as long as the frame,
  \<open>split_dataset\<close> returns on the left the rows whose feature value is at most the
  threshold and on the right those whose value is greater, with the labels at the same
  positions; the two position sets are disjoint and cover all positions, each side keeps
  the order of the input, and the two sides together hold every row and every label once.
\<close>

theorem split_dataset_partition:
  assumes "f \<in> set (columns X)" "length y = length (rows X)"
  shows "split_dataset X y f t =
           Inr ((X\<lparr>rows := nths (rows X) (left_index X f t)\<rparr>, nths y (left_index X f t)),
                (X\<lparr>rows := nths (rows X) (right_index X f t)\<rparr>, nths y (right_index X f t))) \<and>
         nths (rows X) (left_index X f t) = filter (\<lambda>r. fld X f r \<le> t) (rows X) \<and>
         nths (rows X) (right_index X f t) = filter (\<lambda>r. fld X f r > t) (rows X) \<and>
         left_index X f t \<union> right_index X f t = {..< length (rows X)} \<and>
         left_index X f t \<inter> right_index X f t = {} \<and>
         mset (nths (rows X) (left_index X f t)) + mset (nths (rows X) (right_index X f t))
           = mset (rows X) \<and>
         mset (nths y (left_index X f t)) + mset (nths y (right_index X f t)) = mset y"
proof -
  define gi where "gi = map (\<lambda>u. u > t) (map (fld X f) (rows X))"
  let ?L = "left_index X f t" and ?R = "right_index X f t"
  have lgi: "length gi = length (rows X)" by (simp add: gi_def)
  have Rgi: "{i. i < length gi \<and> gi ! i} = ?R"
    by (auto simp: gi_def right_index_def)
  have Lgi: "{i. i < length (map Not gi) \<and> map Not gi ! i} = ?L"
    by (auto simp: gi_def left_index_def)
  have sd: "split_dataset X y f t =
      Inr ((mask_rows X (map Not gi), mask_list y (map Not gi)), (mask_rows X gi, mask_list y gi))"
    using assms by (simp add: split_dataset_def column_fld gi_def Let_def)
  have rl: "mask_list (rows X) (map Not gi) = nths (rows X) ?L"
    using mask_list_nths [of "rows X" "map Not gi"] lgi unfolding Lgi by simp
  have rr: "mask_list (rows X) gi = nths (rows X) ?R"
    using mask_list_nths [of "rows X" gi] lgi unfolding Rgi by simp
  have yl: "mask_list y (map Not gi) = nths y ?L"
    using mask_list_nths [of y "map Not gi"] lgi assms(2) unfolding Lgi by simp
  have yr: "mask_list y gi = nths y ?R"
    using mask_list_nths [of y gi] lgi assms(2) unfolding Rgi by simp
  have fl: "mask_list (rows X) (map Not gi) = filter (\<lambda>r. fld X f r \<le> t) (rows X)"
    unfolding gi_def by (simp add: mask_list_filter comp_def not_less)
  have fr: "mask_list (rows X) gi = filter (\<lambda>r. fld X f r > t) (rows X)"
    unfolding gi_def by (simp add: mask_list_filter comp_def)
  have c1: "split_dataset X y f t =
           Inr ((X\<lparr>rows := nths (rows X) ?L\<rparr>, nths y ?L), (X\<lparr>rows := nths (rows X) ?R\<rparr>, nths y ?R))"
    unfolding sd by (simp add: mask_rows_def rl rr yl yr)
  have c2: "nths (rows X) ?L = filter (\<lambda>r. fld X f r \<le> t) (rows X)"
    using rl fl by simp
  have c3: "nths (rows X) ?R = filter (\<lambda>r. fld X f r > t) (rows X)"
    using rr fr by simp
  have c4: "?L \<union> ?R = {..< length (rows X)}"
    by (auto simp: left_index_def right_index_def)
  have c5: "?L \<inter> ?R = {}"
    by (auto simp: left_index_def right_index_def)
  have c6: "mset (nths (rows X) ?L) + mset (nths (rows X) ?R) = mset (rows X)"
    unfolding c2 c3 by (simp add: not_le [symmetric])
  have gn: "map Not gi = map (\<lambda>r. \<not> fld X f r > t) (rows X)"
    and gp: "gi = map (\<lambda>r. fld X f r > t) (rows X)"
    by (simp_all add: gi_def)
  have c7: "mset (nths y ?L) + mset (nths y ?R) = mset y"
    using mset_mask_list_split [of "rows X" y "\<lambda>r. fld X f r > t"] assms(2)
    unfolding yl [symmetric] yr [symmetric] gn gp by (simp add: comp_def)
  from c1 c2 c3 c4 c5 c6 c7 show ?thesis by (intro conjI)
qed

theorem split_dataset_partition_witness:
  "split_dataset X0 [10, 20, 30, 40] ''f'' 2 =
     Inr ((X0\<lparr>rows := [[1, -2, 1], [2, -2, 1]]\<rparr>, [10, 20]),
          (X0\<lparr>rows := [[3, 4, 1], [3, 2, 1]]\<rparr>, [30, 40])) \<and>
   nths (rows X0) (left_index X0 ''f'' 2) = [[1, -2, 1], [2, -2, 1]] \<and>
   nths [10, 20, 30, 40 :: rat] (right_index X0 ''f'' 2) = [30, 40]"
proof -
  have h1: "''f'' \<in> set (columns X0)" by (simp add: X0_def)
  have h2: "length [10, 20, 30, 40 :: rat] = length (rows X0)" by (simp add: X0_def)
  have e: "split_dataset X0 [10, 20, 30, 40] ''f'' 2 =
     Inr ((X0\<lparr>rows := [[1, -2, 1], [2, -2, 1]]\<rparr>, [10, 20]),
          (X0\<lparr>rows := [[3, 4, 1], [3, 2, 1]]\<rparr>, [30, 40]))"
    by (simp add: ex_defs eval_defs)
  from split_dataset_partition [OF h1 h2, of 2] e show ?thesis
    by (simp add: X0_def fld_def)
qed


subsection \<open>Prediction\<close>








subsection \<open>The score\<close>

lemma predict_loop_length:
  "predict_loop L st X is res = Inr out \<Longrightarrow> length out = length res + length is"
  by (induction "is" arbitrary: res) (auto split: sum.splits)

lemma predict_length: "predict L st X = Inr ps \<Longrightarrow> length ps = length (rows X)"
  using predict_loop_length [of L st X "[0 ..< length (rows X)]" "[]" ps] by (simp add: predict_def)

lemma foldl_fadd_Fin: "foldl fadd (Fin a) (map Fin zs) = Fin (a + sum_list zs)"
  by (induction zs arbitrary: a) (simp_all add: ac_simps)

lemma fmean_Fin: "zs \<noteq> [] \<Longrightarrow> fmean (map Fin zs) = Fin (sum_list zs / of_nat (length zs))"
  by (simp add: fmean_def foldl_fadd_Fin fdiv_def)

lemma sum_list_zip_nth:
  fixes k :: "rat \<Rightarrow> rat \<Rightarrow> rat"
  assumes "length qs = length ys"
  shows "sum_list (map (\<lambda>(q, t). k q t) (zip qs ys)) = (\<Sum>i < length qs. k (qs ! i) (ys ! i))"
proof -
  have "sum_list (map (\<lambda>(q, t). k q t) (zip qs ys))
      = (\<Sum>i = 0 ..< length (zip qs ys). map (\<lambda>(q, t). k q t) (zip qs ys) ! i)"
    by (simp add: sum_list_sum_nth)
  also have "\<dots> = (\<Sum>i = 0 ..< length qs. k (qs ! i) (ys ! i))"
    using assms by (intro sum.cong) simp_all
  finally show ?thesis by (simp add: lessThan_atLeast0)
qed

text \<open>
  Claim C9. For a label vector as long as the frame, \<open>score\<close> returns the mean of the
  squared differences between the predictions and the labels, taken position by
  position; when the predictions are finite numbers and the frame has a row, this is the
  sum of the squared differences divided by the number of rows. The three methods
  involved assign no attribute, so the model gives them no state to return.
\<close>

theorem score_mean_squared_error:
  assumes "length y = length (rows X)"
  shows "(predict L st X = Inr ps \<longrightarrow>
            score L st X y = Inr (fmean (map (\<lambda>i. fsq (fsub (ps ! i) (y ! i))) [0 ..< length (rows X)]))) \<and>
         (predict L st X = Inr (map Fin qs) \<and> qs \<noteq> [] \<longrightarrow>
            score L st X y = Inr (Fin (mean_squared_error qs y)))"
proof (intro conjI impI)
  assume p: "predict L st X = Inr ps"
  have l: "length ps = length y" using predict_length [OF p] assms by simp
  have "map (\<lambda>(p, t). fsub p t) (zip ps y) = map (\<lambda>i. fsub (ps ! i) (y ! i)) [0 ..< length y]"
    using l by (intro nth_equalityI) simp_all
  then show "score L st X y = Inr (fmean (map (\<lambda>i. fsq (fsub (ps ! i) (y ! i))) [0 ..< length (rows X)]))"
    using l assms by (simp add: score_def p array_sub_def comp_def)
next
  assume a: "predict L st X = Inr (map Fin qs) \<and> qs \<noteq> []"
  have l: "length qs = length y" using predict_length [of L st X "map Fin qs"] a assms by simp
  have m: "map fsq (map (\<lambda>(p, t). fsub p t) (zip (map Fin qs) y))
         = map Fin (map (\<lambda>(q, t). (q - t)\<^sup>2) (zip qs y))"
    by (simp add: zip_map1 case_prod_beta)
  have ne: "map (\<lambda>(q, t). (q - t)\<^sup>2) (zip qs y) \<noteq> []" using a l by (cases qs; cases y) auto
  have "score L st X y = Inr (fmean (map Fin (map (\<lambda>(q, t). (q - t)\<^sup>2) (zip qs y))))"
    using a l by (simp add: score_def array_sub_def m del: map_map)
  also have "\<dots> = Inr (Fin (sum_list (map (\<lambda>(q, t). (q - t)\<^sup>2) (zip qs y)) / of_nat (length qs)))"
    using fmean_Fin [OF ne] l by simp
  also have "\<dots> = Inr (Fin (mean_squared_error qs y))"
    using sum_list_zip_nth [OF l, of "\<lambda>q t. (q - t)\<^sup>2"] by (simp add: mean_squared_error_def)
  finally show "score L st X y = Inr (Fin (mean_squared_error qs y))" .
qed

theorem score_mean_squared_error_witness:
  "predict exact_lib st_trained X0 = Inr (map Fin [4 / 3, 4 / 3, - 2, - 2]) \<and>
   score exact_lib st_trained X0 [1, 2, - 2, 0] = Inr (Fin (41 / 36)) \<and>
   mean_squared_error [4 / 3, 4 / 3, - 2, - 2] [1, 2, - 2, 0] = 41 / 36"
proof -
  have h: "length [1, 2, - 2, 0 :: rat] = length (rows X0)" by (simp add: X0_def)
  have p: "predict exact_lib st_trained X0 = Inr (map Fin [4 / 3, 4 / 3, - 2, - 2])"
    by (simp add: ex_defs eval_defs lib_defs)
  have s: "score exact_lib st_trained X0 [1, 2, - 2, 0] = Inr (Fin (41 / 36))"
    by (simp add: ex_defs eval_defs lib_defs power2_eq_square)
  from score_mean_squared_error [OF h, of exact_lib st_trained "map Fin [4 / 3, 4 / 3, - 2, - 2]"
      "[4 / 3, 4 / 3, - 2, - 2]"] p s
  show ?thesis by simp
qed


subsection \<open>Growing the tree\<close>

lemma train_example: "train exact_lib cfg0 st_new X0 [1, 2, 3, 4] 1 = Inr (T0, st_trained)"
  by (simp add: train.simps ex_defs eval_defs lib_defs)

lemma column_Inr:
  assumes "column X c = Inr xs"
  shows "c \<in> set (columns X)" "xs = map (fld X c) (rows X)"
proof -
  show c: "c \<in> set (columns X)"
    using assms index_of_None [of c "columns X"] by (cases "c \<in> set (columns X)") (simp_all add: column_def)
  show "xs = map (fld X c) (rows X)"
    using assms column_fld [OF c] by simp
qed

lemma split_dataset_Inr:
  assumes "split_dataset X y f t = Inr ((Xl, yl), (Xr, yr))"
  shows "Xl = X\<lparr>rows := filter (\<lambda>r. fld X f r \<le> t) (rows X)\<rparr>"
    and "Xr = X\<lparr>rows := filter (\<lambda>r. fld X f r > t) (rows X)\<rparr>"
proof -
  from assms obtain col where col: "column X f = Inr col"
    by (auto simp: split_dataset_def split: sum.splits)
  have c: "col = map (fld X f) (rows X)" using column_Inr(2) [OF col] .
  from assms col show "Xl = X\<lparr>rows := filter (\<lambda>r. fld X f r \<le> t) (rows X)\<rparr>"
    by (auto simp: split_dataset_def Let_def c mask_rows_def mask_list_filter comp_def not_less
             split: if_splits)
  from assms col show "Xr = X\<lparr>rows := filter (\<lambda>r. fld X f r > t) (rows X)\<rparr>"
    by (auto simp: split_dataset_def Let_def c mask_rows_def mask_list_filter comp_def
             split: if_splits)
qed

lemma train_Inr_split:
  assumes "train L cfg st X y depth = Inr (t, st')" "d' = depth + 1"
  shows "t = Leaf (quot L (sum_neg L (col_sum L X ''g'')) (sum_add_param L (col_sum L X ''h'') (Lambda cfg))) \<or>
         (\<exists>f v l r s1 s2 s3 Xl yl Xr yr.
            t = Node f v l r \<and> split_dataset X y f v = Inr ((Xl, yl), (Xr, yr)) \<and>
            train L cfg s1 Xl yl d' = Inr (l, s2) \<and> train L cfg s2 Xr yr d' = Inr (r, s3))"
proof -
  from assms(1) obtain gs hs where g: "column X ''g'' = Inr gs" and h: "column X ''h'' = Inr hs"
    by (auto simp: train.simps [of L cfg st X y depth] split: sum.splits)
  have G: "col_total L gs = col_sum L X ''g''" and H: "col_total L hs = col_sum L X ''h''"
    using column_Inr(2) [OF g] column_Inr(2) [OF h] by (simp_all add: col_sum_def)
  from assms show ?thesis
    by (simp add: train.simps [of L cfg st X y depth] g h G H Let_def
           split: sum.splits prod.splits if_splits) blast+
qed

lemma train_leaves_fit:
  "train L cfg st X y depth = Inr (t, st') \<Longrightarrow> leaves_fit L (Lambda cfg) X t"
proof (induction t arbitrary: st X y depth st')
  case (Leaf v)
  from train_Inr_split [OF Leaf refl] show ?case by simp
next
  case (Node f v l r)
  from train_Inr_split [OF Node.prems refl] obtain s1 s2 s3 Xl yl Xr yr where
    sd: "split_dataset X y f v = Inr ((Xl, yl), (Xr, yr))"
    and l: "train L cfg s1 Xl yl (depth + 1) = Inr (l, s2)"
    and r: "train L cfg s2 Xr yr (depth + 1) = Inr (r, s3)"
    by auto
  from Node.IH(1) [OF l] Node.IH(2) [OF r] show ?case
    by (simp add: split_dataset_Inr [OF sd])
qed

text \<open>
  Claim C1. On a frame that has the two gradient columns, a call of \<open>train\<close> returns the
  leaf \<open>-G/(H+\<lambda>)\<close>, with \<open>G\<close> and \<open>H\<close> the sums of the gradient columns over the rows of
  the frame it was given, when the depth exceeds \<open>max_depth\<close>; otherwise the same leaf when
  the frame has fewer than \<open>min_samples_split\<close> rows; otherwise, the best split having been
  found, the same leaf when \<open><\<close> finds its gain below \<open>split_threshold\<close>; otherwise the node of
  the best split over the trees that the two recursive calls, at depth plus one, grow
  from the left and from the right part. Consequently every leaf of a returned tree holds
  \<open>-G/(H+\<lambda>)\<close> over exactly the rows that the thresholds on its way send to it. Sums,
  quotient and comparison are those of the library.
\<close>

theorem train_rules:
  assumes "distinct (columns X)" "''g'' \<in> set (columns X)" "''h'' \<in> set (columns X)"
  shows "map_sum id fst (train L cfg st X y depth) =
     (let G = col_sum L X ''g''; H = col_sum L X ''h'';
          leaf = Leaf (quot L (sum_neg L G) (sum_add_param L H (Lambda cfg)));
          st2 = st\<lparr>self_feature_names :=
                      (if depth = 1 then Some (take (length (columns X) - 2) (columns X))
                       else self_feature_names st),
                    self_G := Some G, self_H := Some H\<rparr>
      in if depth > max_depth cfg then Inr leaf
         else if int (length (rows X)) < min_samples_split cfg then Inr leaf
         else (case select_best_split L cfg st2 X of Inl e \<Rightarrow> Inl e
           | Inr (f, v, gain) \<Rightarrow>
               if gain_lt_param L gain (split_threshold cfg) then Inr leaf
               else (case split_dataset X y f v of Inl e \<Rightarrow> Inl e
                 | Inr ((Xl, yl), (Xr, yr)) \<Rightarrow>
                    (case train L cfg st2 Xl yl (depth + 1) of Inl e \<Rightarrow> Inl e
                     | Inr (ltree, st3) \<Rightarrow>
                        (case train L cfg st3 Xr yr (depth + 1) of Inl e \<Rightarrow> Inl e
                         | Inr (rtree, st4) \<Rightarrow> Inr (Node f v ltree rtree)))))) \<and>
     (\<forall>t st'. train L cfg st X y depth = Inr (t, st') \<longrightarrow> leaves_fit L (Lambda cfg) X t)"
proof -
  have g: "column X ''g'' = Inr (map (fld X ''g'') (rows X))"
    and h: "column X ''h'' = Inr (map (fld X ''h'') (rows X))"
    using assms(2,3) by (simp_all add: column_fld)
  have st_eq: "(if depth = 1 then st\<lparr>self_feature_names := Some fs\<rparr> else st) =
      st\<lparr>self_feature_names := (if depth = 1 then Some fs else self_feature_names st)\<rparr>" for fs
    by simp
  have a: "map_sum id fst (train L cfg st X y depth) =
     (let G = col_sum L X ''g''; H = col_sum L X ''h'';
          leaf = Leaf (quot L (sum_neg L G) (sum_add_param L H (Lambda cfg)));
          st2 = st\<lparr>self_feature_names :=
                      (if depth = 1 then Some (take (length (columns X) - 2) (columns X))
                       else self_feature_names st),
                    self_G := Some G, self_H := Some H\<rparr>
      in if depth > max_depth cfg then Inr leaf
         else if int (length (rows X)) < min_samples_split cfg then Inr leaf
         else (case select_best_split L cfg st2 X of Inl e \<Rightarrow> Inl e
           | Inr (f, v, gain) \<Rightarrow>
               if gain_lt_param L gain (split_threshold cfg) then Inr leaf
               else (case split_dataset X y f v of Inl e \<Rightarrow> Inl e
                 | Inr ((Xl, yl), (Xr, yr)) \<Rightarrow>
                    (case train L cfg st2 Xl yl (depth + 1) of Inl e \<Rightarrow> Inl e
                     | Inr (ltree, st3) \<Rightarrow>
                        (case train L cfg st3 Xr yr (depth + 1) of Inl e \<Rightarrow> Inl e
                         | Inr (rtree, st4) \<Rightarrow> Inr (Node f v ltree rtree))))))"
    unfolding train.simps [of L cfg st X y depth] g h st_eq
    by (simp add: Let_def col_sum_def split: sum.splits prod.splits)
  from a train_leaves_fit show ?thesis by blast
qed


theorem train_rules_witness:
  "distinct (columns X0) \<and> ''g'' \<in> set (columns X0) \<and> ''h'' \<in> set (columns X0) \<and>
   train exact_lib cfg0 st_new X0 [1, 2, 3, 4] 1 = Inr (T0, st_trained) \<and>
   leaves_fit exact_lib (Lambda cfg0) X0 T0"
proof -
  have h0: "distinct (columns X0)" by (simp add: X0_def)
  have h1: "''g'' \<in> set (columns X0)" by (simp add: X0_def)
  have h2: "''h'' \<in> set (columns X0)" by (simp add: X0_def)
  from train_rules [OF h0 h1 h2, of exact_lib cfg0 st_new "[1, 2, 3, 4]" 1, THEN conjunct2]
    train_example
  have "leaves_fit exact_lib (Lambda cfg0) X0 T0" by blast
  with h0 h1 h2 train_example show ?thesis by simp
qed

lemma scan_values_gamma:
  "scan_values L (cfg\<lparr>gamma := g\<rparr>) st X f vs G_l H_l ls = scan_values L cfg st X f vs G_l H_l ls"
  by (induction vs arbitrary: G_l H_l ls) (simp_all add: Let_def split: sum.splits option.splits)

lemma scan_features_gamma:
  "scan_features L (cfg\<lparr>gamma := g\<rparr>) st X fs ls = scan_features L cfg st X fs ls"
  by (induction fs arbitrary: ls) (simp_all add: scan_values_gamma split: sum.splits)

lemma select_best_split_gamma:
  "select_best_split L (cfg\<lparr>gamma := g\<rparr>) st X = select_best_split L cfg st X"
  by (simp add: select_best_split_def candidates_def scan_features_gamma split: option.splits)

text \<open>
  Claim C8. The value \<open>loss_reduction\<close>, the only use of \<open>gamma\<close>, decides nothing: two
  calls of \<open>train\<close> that differ in \<open>gamma\<close> alone return the same result, tree and
  attributes.
\<close>

theorem gamma_irrelevant:
  "train L (cfg\<lparr>gamma := g\<rparr>) st X y depth = train L cfg st X y depth"
proof (induction "nat (max_depth cfg + 1 - depth)" arbitrary: st X y depth rule: less_induct)
  case less
  show ?case
  proof (cases "depth > max_depth cfg")
    case True
    then show ?thesis
      by (simp add: train.simps [of L _ st X y depth] Let_def split: sum.splits)
  next
    case False
    then have "nat (max_depth cfg + 1 - (depth + 1)) < nat (max_depth cfg + 1 - depth)" by simp
    then have IH: "train L (cfg\<lparr>gamma := g\<rparr>) st' X' y' (depth + 1) = train L cfg st' X' y' (depth + 1)"
      for st' X' y' by (rule less.hyps)
    show ?thesis
      by (simp add: train.simps [of L _ st X y depth] select_best_split_gamma IH Let_def
               cong: sum.case_cong if_cong)
  qed
qed


theorem gamma_irrelevant_witness:
  "train exact_lib (cfg0\<lparr>gamma := 100\<rparr>) st_new X0 [1, 2, 3, 4] 1 = Inr (T0, st_trained) \<and>
   train exact_lib cfg0 st_new X0 [1, 2, 3, 4] 1 = Inr (T0, st_trained)"
  using gamma_irrelevant [of exact_lib 100 cfg0 st_new X0 "[1, 2, 3, 4]" 1] train_example by simp

lemma train_Inr_cases:
  assumes "train L cfg st X y depth = Inr (t, st')" "d' = depth + 1"
  shows "(\<exists>v. t = Leaf v) \<or>
         (\<exists>f v l r s1 X1 y1 s2 X2 y2 s3.
            t = Node f v l r \<and> \<not> depth > max_depth cfg \<and>
            train L cfg s1 X1 y1 d' = Inr (l, s2) \<and> train L cfg s2 X2 y2 d' = Inr (r, s3))"
  using assms
  by (simp add: train.simps [of L cfg st X y depth] Let_def
           split: sum.splits prod.splits if_splits) blast+

text \<open>
  Claim C10. Every call of \<open>train\<close> terminates: the argument lies in the domain of the
  recursion, whatever the frame and the parameters. The recursion is no deeper than
  \<open>max_depth\<close> allows: the tree returned by a call at a given depth has height at most
  \<open>max_depth + 1 - depth\<close>, and height 0 beyond \<open>max_depth\<close>; this holds as well when a
  split leaves one side without rows, as the split at 2 of the two rows with values 1
  and 2 does in the example.
\<close>

theorem train_terminates:
  "train_dom (L, cfg, st, X, y, depth) \<and>
   (\<forall>t st'. train L cfg st X y depth = Inr (t, st') \<longrightarrow>
      int (height t) \<le> max 0 (max_depth cfg + 1 - depth))"
proof (induction "nat (max_depth cfg + 1 - depth)" arbitrary: st X y depth rule: less_induct)
  case less
  have dom: "train_dom (L, cfg, st, X, y, depth)"
    by (rule train.domintros; rule less.hyps [THEN conjunct1]; simp)
  have hb: "int (height t) \<le> max 0 (max_depth cfg + 1 - depth)"
    if tr: "train L cfg st X y depth = Inr (t, st')" for t st'
    using train_Inr_cases [OF tr refl]
  proof (elim disjE exE conjE)
    fix v assume "t = Leaf v"
    then show ?thesis by simp
  next
    fix f v l r s1 X1 y1 s2 X2 y2 s3
    assume t: "t = Node f v l r" and d: "\<not> depth > max_depth cfg"
      and l: "train L cfg s1 X1 y1 (depth + 1) = Inr (l, s2)"
      and r: "train L cfg s2 X2 y2 (depth + 1) = Inr (r, s3)"
    from d have m: "nat (max_depth cfg + 1 - (depth + 1)) < nat (max_depth cfg + 1 - depth)" by simp
    have "int (height l) \<le> max 0 (max_depth cfg + 1 - (depth + 1))"
      using less.hyps [OF m, THEN conjunct2] l by blast
    moreover have "int (height r) \<le> max 0 (max_depth cfg + 1 - (depth + 1))"
      using less.hyps [OF m, THEN conjunct2] r by blast
    ultimately show ?thesis using d by (simp add: t)
  qed
  from dom hb show ?case by blast
qed


theorem train_terminates_witness:
  "train_dom (exact_lib, cfg0, st_new, X0, [1, 2, 3, 4], 1) \<and>
   train exact_lib cfg0 st_new X0 [1, 2, 3, 4] 1 = Inr (T0, st_trained) \<and>
   height T0 = 2 \<and> max_depth cfg0 = 2"
proof -
  have h: "height T0 = 2" by (simp add: T0_def)
  have m: "max_depth cfg0 = 2" by (simp add: cfg0_def)
  from train_terminates [of exact_lib cfg0 st_new X0 "[1, 2, 3, 4]" 1] train_example h m
  show ?thesis by simp
qed

subsection \<open>Where the arithmetic of the library decides\<close>

text \<open>
  The properties above hold of every library. The three frames of the examples show
  what rests on that: evaluated with float64 the definitions take the decisions that
  the program takes, which are not those of exact arithmetic.

  On the first frame the gain of the split at 1 is 6 in exact arithmetic, not below the
  threshold 6, and a node is grown; in float64 it is \<open>6 - 2 ^ -49\<close>, below the
  threshold, and the root is the leaf \<open>8/6\<close> rounded.
\<close>

lemma rounding_below_threshold:
  "candidates float64_lib cfg_r1
     (st_new\<lparr>self_feature_names := Some [''f''], self_G := Some (Fin (- 8)),
             self_H := Some (Fin 6)\<rparr>) X_r1 =
     Inr [(''f'', 1, Fin (3377699720527871 / 562949953421312)),
          (''f'', 2, Fin (75059993789509 / 562949953421312))]"
  "map_sum id fst (train float64_lib cfg_r1 st_new X_r1 [0, 0, 0] 1) =
     Inr (Leaf (Fin (6004799503160661 / 4503599627370496)))"
  "map_sum id fst (train exact_lib cfg_r1 st_new X_r1 [0, 0, 0] 1) =
     Inr (Node ''f'' 1 (Leaf (Fin (1 / 3))) (Leaf (Fin (7 / 3))))"
  by code_simp+

text \<open>
  On the second frame the splits at 1 and at 2 both have the gain \<open>30/7\<close> in exact
  arithmetic, and the first is chosen; in float64 the second gain is the greater by two
  units in the last place, and the second is chosen.
\<close>

lemma rounding_breaks_tie:
  "candidates float64_lib cfg_r
     (st_new\<lparr>self_feature_names := Some [''f''], self_G := Some (Fin (- 10)),
             self_H := Some (Fin 10)\<rparr>) X_r2 =
     Inr [(''f'', 1, Fin (603160664379977 / 140737488355328)),
          (''f'', 2, Fin (2412642657519909 / 562949953421312))]"
  "map_sum id fst (train float64_lib cfg_r st_new X_r2 [0, 0, 0] 1) =
     Inr (Node ''f'' 2 (Leaf (Fin (6433713753386423 / 4503599627370496))) (Leaf (Fin 0)))"
  "map_sum id fst (train exact_lib cfg_r st_new X_r2 [0, 0, 0] 1) =
     Inr (Node ''f'' 1 (Leaf (Fin 2)) (Leaf (Fin (4 / 7))))"
  by code_simp+

text \<open>
  On the third frame the column of second gradients sums to \<open>1 + 2 ^ -60\<close>, which float64
  rounds to 1; then \<open>H_r\<close> is zero at the first value as well, every split is left out,
  and the call fails on the empty list, where exact arithmetic records the split at 1.
\<close>

lemma rounding_empties_candidates:
  "col_sum float64_lib X_r3 ''h'' = Fin 1"
  "train float64_lib cfg_r st_new X_r3 [0, 0] 1 = Inl IndexError"
  "map_sum id fst (train exact_lib cfg_r st_new X_r3 [0, 0] 1) =
     Inr (Node ''f'' 1 (Leaf (Fin (- 3))) (Leaf (Fin 1152921504606846976)))"
  by code_simp+

text \<open>
  On the frame of int64 columns the square of \<open>4000000000\<close> is taken modulo \<open>2 ^ 64\<close>
  and is negative: the one gain recorded is negative and the root is a leaf, where exact
  arithmetic records the gain \<open>8 * 10 ^ 18\<close> and grows a node.
\<close>

lemma int64_square_wraps:
  "candidates int64_lib cfg_r
     (st_new\<lparr>self_feature_names := Some [''f''], self_G := Some (Fin 4000000000),
             self_H := Some (Fin 2)\<rparr>) X_w =
     Inr [(''f'', 1, Fin (- 1223372036854775808))]"
  "candidates exact_lib cfg_r
     (st_new\<lparr>self_feature_names := Some [''f''], self_G := Some (Fin 4000000000),
             self_H := Some (Fin 2)\<rparr>) X_w =
     Inr [(''f'', 1, Fin 8000000000000000000)]"
  "map_sum id fst (train int64_lib cfg_r st_new X_w [0, 0] 1) = Inr (Leaf (Fin (- 2000000000)))"
  "map_sum id fst (train exact_lib cfg_r st_new X_w [0, 0] 1) =
     Inr (Node ''f'' 1 (Leaf (Fin (- 4000000000))) (Leaf (Fin 0)))"
  by code_simp+

text \<open>
  A float64 cell and a float64 split value are compared as they are: \<open>keys_exact\<close>
  holds at a node whenever rounding changes neither.
\<close>

lemma float64_key_exact:
  assumes "round64 u = Fin u" "round64 thr = Fin thr"
  shows "np_cell_gt float64_lib u (py_float_str float64_lib thr) = (u > thr)"
  using assms by (simp add: float64_lib_def float_lib_def)

subsection \<open>Float64 sums and the guard of the split search\<close>

text \<open>
  The rounding \<open>round64\<close> never takes a nonzero sum of two float64 values to zero: the
  values are multiples of \<open>2 ^ -1074\<close>, so the sum is at least that far from zero, and
  what is that far from zero is rounded to a value at least as far. So in float64, for
  a float64 \<open>\<lambda>\<close>, \<open>zero_sum_opposite\<close> holds of every value: a divisor \<open>a + \<lambda>\<close> is zero
  only if \<open>==\<close> finds \<open>a\<close> equal to \<open>-\<lambda>\<close>.
\<close>

lemma pow2i_powi: "pow2i e = 2 powi e"
  by (simp add: pow2i_def power_int_def power_one_over)

lemma pow2i_pos: "0 < pow2i e"
  by (simp add: pow2i_def)

lemma pow2i_add: "pow2i (a + b) = pow2i a * pow2i b"
  by (simp add: pow2i_powi power_int_add)

lemma pow2i_mono: "a \<le> b \<Longrightarrow> pow2i a \<le> pow2i b"
  by (simp add: pow2i_powi power_int_increasing)

lemma pow2i_nat: "0 \<le> e \<Longrightarrow> pow2i e = of_int (2 ^ nat e)"
  by (simp add: pow2i_def)

lemma ilog2_le:
  assumes "0 < q"
  shows "pow2i (ilog2 q) \<le> q"
proof (cases "1 \<le> q")
  case True
  then have f: "0 < \<lfloor>q\<rfloor>" by simp
  have b: "1 \<le> bitlen \<lfloor>q\<rfloor>" using f by (simp add: bitlen_def floorlog_def)
  have "(2::int) ^ nat (bitlen \<lfloor>q\<rfloor> - 1) \<le> \<lfloor>q\<rfloor>" using bitlen_bounds [OF f] by simp
  then have "(of_int (2 ^ nat (bitlen \<lfloor>q\<rfloor> - 1)) :: rat) \<le> of_int \<lfloor>q\<rfloor>"
    by (simp only: of_int_le_iff)
  also have "\<dots> \<le> q" by simp
  finally show ?thesis using True b by (simp add: ilog2_def pow2i_nat)
next
  case False
  define k where "k = bitlen \<lfloor>1 / q\<rfloor> - 1"
  from False assms have "1 < 1 / q" by simp
  then have f: "0 < \<lfloor>1 / q\<rfloor>" by simp
  have kk: "0 \<le> k" using f by (simp add: k_def bitlen_def floorlog_def)
  have "\<lfloor>1 / q\<rfloor> < 2 ^ nat (bitlen \<lfloor>1 / q\<rfloor>)" using bitlen_bounds [OF f] by simp
  then have "\<lfloor>1 / q\<rfloor> < 2 ^ nat (k + 1)" by (simp add: k_def)
  then have "1 / q < of_int (2 ^ nat (k + 1))" by (simp only: floor_less_iff)
  then have "1 / q < 2 ^ nat (k + 1)" by simp
  then have "1 / 2 ^ nat (k + 1) < q"
    using assms by (simp add: field_simps)
  then have lt: "pow2i (- k - 1) < q" using kk by (simp add: pow2i_def add.commute)
  show ?thesis
    using False lt by (simp add: ilog2_def ilog2_below_def k_def [symmetric])
qed

lemma round_half_even_pos:
  assumes "1 \<le> x"
  shows "1 \<le> round_half_even x"
proof -
  from assms have "1 \<le> \<lfloor>x\<rfloor>" by simp
  then show ?thesis by (simp add: round_half_even_def nearest_even_def)
qed

lemma pack64_nonzero: "q \<noteq> 0 \<Longrightarrow> 1 \<le> m \<Longrightarrow> pack64 q p m \<noteq> Fin 0"
  using pow2i_pos [of p] by (auto simp: pack64_def)

lemma round64_nonzero:
  assumes "q \<noteq> 0" "pow2i (- 1074) \<le> \<bar>q\<bar>"
  shows "round64 q \<noteq> Fin 0"
proof -
  define p where "p = max (ilog2 \<bar>q\<bar>) (- 1022) - 52"
  have "pow2i p \<le> \<bar>q\<bar>"
  proof (cases "- 1022 \<le> ilog2 \<bar>q\<bar>")
    case True
    then have "p \<le> ilog2 \<bar>q\<bar>" by (simp add: p_def)
    then have "pow2i p \<le> pow2i (ilog2 \<bar>q\<bar>)" by (rule pow2i_mono)
    also have "\<dots> \<le> \<bar>q\<bar>" using assms(1) by (intro ilog2_le) simp
    finally show ?thesis .
  next
    case False
    then have "p = - 1074" by (simp add: p_def)
    then show ?thesis using assms(2) by simp
  qed
  then have "1 \<le> \<bar>q\<bar> / pow2i p" using pow2i_pos [of p] by (simp add: field_simps)
  then have "1 \<le> round_half_even (\<bar>q\<bar> / pow2i p)" by (rule round_half_even_pos)
  then show ?thesis
    using assms(1) by (simp add: round64_def round64_at_def p_def [symmetric] pack64_nonzero)
qed

lemma float64_grid:
  assumes "round64 q = Fin a"
  shows "\<exists>k::int. a = of_int k * pow2i (- 1074)"
proof (cases "q = 0")
  case True
  then have "a = 0" using assms by (simp add: round64_def)
  then show ?thesis by (intro exI [of _ 0]) simp
next
  case False
  define p where "p = max (ilog2 \<bar>q\<bar>) (- 1022) - 52"
  define m where "m = round_half_even (\<bar>q\<bar> / pow2i p)"
  have p: "0 \<le> p + 1074" by (simp add: p_def)
  have pp: "pow2i p = of_int (2 ^ nat (p + 1074)) * pow2i (- 1074)"
    using pow2i_add [of "p + 1074" "- 1074"] pow2i_nat [OF p] by simp
  from assms False have "pack64 q p m = Fin a"
    by (simp add: round64_def round64_at_def p_def m_def)
  then have "a = of_int m * pow2i p \<or> a = - (of_int m * pow2i p)"
    by (auto simp: pack64_def split: if_splits)
  then have "a = of_int (m * 2 ^ nat (p + 1074)) * pow2i (- 1074) \<or>
             a = of_int (- (m * 2 ^ nat (p + 1074))) * pow2i (- 1074)"
    unfolding pp by (simp add: mult.assoc)
  then show ?thesis by blast
qed

lemma pack64_minus: "q \<noteq> 0 \<Longrightarrow> pack64 (- q) p m = fl_neg (pack64 q p m)"
  by (auto simp: pack64_def)

lemma round64_minus: "round64 (- q) = fl_neg (round64 q)"
proof (cases "q = 0")
  case True
  then show ?thesis by (simp add: round64_def)
next
  case False
  then show ?thesis
    unfolding round64_def round64_at_def abs_minus_cancel by (simp add: pack64_minus)
qed

text \<open>
  A finite float64 value \<open>a\<close> is what \<open>round64\<close> returns on some number, and a float64
  \<open>\<lambda>\<close> is one that \<open>round64\<close> leaves as it is.
\<close>

lemma float64_zero_sum_opposite:
  assumes "round64 q = Fin a" "round64 lam = Fin lam"
  shows "zero_sum_opposite float64_lib lam (Fin a)"
proof (cases "a + lam = 0")
  case True
  then have "a = - lam" by simp
  then show ?thesis
    using assms(2)
    by (simp add: zero_sum_opposite_def float64_lib_def float_lib_def round64_minus)
next
  case False
  from float64_grid [OF assms(1)] float64_grid [OF assms(2)]
  obtain k l :: int where a: "a = of_int k * pow2i (- 1074)"
    and l: "lam = of_int l * pow2i (- 1074)"
    by blast
  have s: "a + lam = of_int (k + l) * pow2i (- 1074)" by (simp add: a l algebra_simps)
  with False have "k + l \<noteq> 0" by auto
  then have "1 \<le> \<bar>k + l\<bar>" by simp
  then have "(of_int 1 :: rat) \<le> of_int \<bar>k + l\<bar>" by (simp only: of_int_le_iff)
  then have "1 \<le> \<bar>of_int (k + l) :: rat\<bar>" by simp
  then have "pow2i (- 1074) \<le> \<bar>a + lam\<bar>"
    unfolding s abs_mult using pow2i_pos [of "- 1074"]
    by (simp add: mult_le_cancel_right1 abs_of_pos)
  then have "round64 (a + lam) \<noteq> Fin 0" by (rule round64_nonzero [OF False])
  then show ?thesis
    using assms(2) by (simp add: zero_sum_opposite_def float64_lib_def float_lib_def)
qed

lemma float64_zero_sum_opposite_inf:
  assumes "a \<in> {PInf, NInf, NaN}" "round64 lam = Fin lam"
  shows "zero_sum_opposite float64_lib lam a"
  using assms by (auto simp: zero_sum_opposite_def float64_lib_def float_lib_def)

end
